theory Spec2Isabelle
  imports Main "HOL-Library.Word" "HOL-Library.Sublist"
begin

section \<open>Strings\<close>

text \<open>
  A JavaScript string is a sequence of UTF-16 code units. ASCII literals of the source are
  written with \<open>lit\<close>; the three non-ASCII symbols of \<^verbatim>\<open>utils.ts\<close> are given by
  their code units.
\<close>

type_synonym jschar = "16 word"
type_synonym jsstring = "jschar list"

definition lit :: "string \<Rightarrow> jsstring" where
  "lit s = map of_char s"

definition newline :: jsstring where
  "newline = [0x0A]"

text \<open>U+2714 U+FE0F, the symbol passed to \<^verbatim>\<open>action.stop\<close>.\<close>
definition check_mark :: jsstring where
  "check_mark = [0x2714, 0xFE0F]"

text \<open>U+25F7, the prefix of the four stage labels.\<close>
definition clock :: jsstring where
  "clock = [0x25F7]"

text \<open>U+274C, the prefix of every error message.\<close>
definition cross_mark :: jsstring where
  "cross_mark = [0x274C]"

text \<open>\<^verbatim>\<open>Array.prototype.join\<close> on an array of strings.\<close>
fun join :: "jsstring \<Rightarrow> jsstring list \<Rightarrow> jsstring" where
  "join sep [] = []"
| "join sep [x] = x"
| "join sep (x # y # ys) = x @ sep @ join sep (y # ys)"

section \<open>Data model\<close>

text \<open>
  Modelled from the spec: the snapshot type returned by \<^verbatim>\<open>getDeployPipeline\<close> is declared in
  \<^verbatim>\<open>rest-client/routes/pipeline\<close>, which is not part of the sources at hand. The spec (section 3)
  gives its fields: identifier, status, error flag, ordered log lines, optional comment. The
  identifier is kept as the text a template literal renders for it.
\<close>
record pipeline =
  id' :: jsstring
  status :: jsstring
  isErrorOccurred :: bool
  logs :: "jsstring list"
  comment :: "jsstring option"

text \<open>
  Modelled from the spec: \<^verbatim>\<open>DeployPipelineStatusEnum\<close> is declared in
  \<^verbatim>\<open>rest-client/routes/pipeline\<close>; the spec (section 3) names its recognized members, and each
  member is taken to have its own name as value.
\<close>
definition CREATED :: jsstring where "CREATED = lit ''CREATED''"
definition IMAGE_BUILDING :: jsstring where "IMAGE_BUILDING = lit ''IMAGE_BUILDING''"
definition IMAGE_PUSHING :: jsstring where "IMAGE_PUSHING = lit ''IMAGE_PUSHING''"
definition DEPLOYING :: jsstring where "DEPLOYING = lit ''DEPLOYING''"
definition OK :: jsstring where "OK = lit ''OK''"

text \<open>
  The destructured argument of \<^verbatim>\<open>pollDeployPipelines\<close>. The field \<^verbatim>\<open>command\<close> is the output
  sink; its calls are recorded as events. \<^verbatim>\<open>verbose\<close> is optional and defaults to true.
\<close>
record params =
  orgCode :: jsstring
  squidName :: jsstring
  versionName :: jsstring
  deploymentUrl :: jsstring
  verbose :: "bool option"

text \<open>
  Every call the poller makes on a collaborator, in the order made: the fetch
  \<^verbatim>\<open>getDeployPipeline(squidName, versionName)\<close>, \<^verbatim>\<open>CliUx.ux.action.stop\<close> and
  \<^verbatim>\<open>action.start\<close>, \<^verbatim>\<open>command.log\<close>, \<^verbatim>\<open>command.error\<close>,
  \<^verbatim>\<open>streamSquidLogs({orgCode, squidName, versionName, onLog})\<close>, and the
  \<^verbatim>\<open>setTimeout\<close> pause of \<^verbatim>\<open>doUntil\<close> in milliseconds.
\<close>
datatype event =
    GetDeployPipeline jsstring jsstring
  | ActionStop jsstring
  | ActionStart jsstring
  | Log jsstring
  | Error jsstring
  | StreamSquidLogs jsstring jsstring jsstring
  | Sleep nat

text \<open>
  How one call of the loop body ends: it returns the \<^verbatim>\<open>done\<close> flag, or \<^verbatim>\<open>command.error\<close>
  throws (oclif's \<^verbatim>\<open>error\<close> without \<^verbatim>\<open>exit: false\<close> never returns), which makes the
  \<^verbatim>\<open>return true\<close> that follows it unreachable.
\<close>
datatype completion = Return bool | Throw jsstring

text \<open>
  How \<^verbatim>\<open>doUntil\<close> ends on a finite list of fetch results: it returns, the error propagates
  to the caller, or the results run out while the loop is still going.
\<close>
datatype outcome = Returned | Thrown jsstring | Pending

section \<open>The poller\<close>

definition buildPipelineErrorMessage :: "jsstring \<Rightarrow> jsstring \<Rightarrow> jsstring" where
  "buildPipelineErrorMessage text' errorMessage =
     text' @ lit '' '' @ (if errorMessage \<noteq> [] then lit '': '' @ errorMessage else [])"

text \<open>
  The template literal \<^verbatim>\<open>traceDebug\<close>, with its line breaks and six-space indentation.
  \<^verbatim>\<open>dim\<close> is chalk's styling function, a parameter here. \<^verbatim>\<open>pipeline?.id\<close> of a missing
  pipeline renders as \<^verbatim>\<open>undefined\<close>.
\<close>
definition traceDebug ::
  "(jsstring \<Rightarrow> jsstring) \<Rightarrow> jsstring \<Rightarrow> jsstring \<Rightarrow> pipeline option \<Rightarrow> jsstring" where
  "traceDebug dim squid version response =
     newline @ lit ''      ------'' @
     newline @ lit ''      Please report to t.me/HydraDevs '' @
     newline @ lit ''      '' @ dim (lit ''Squid:'') @ lit '' '' @ squid @
     newline @ lit ''      '' @ dim (lit ''Version:'') @ lit '' '' @ version @
     newline @ lit ''      '' @ dim (lit ''Deploy:'') @ lit '' '' @
       (case response of None \<Rightarrow> lit ''undefined'' | Some p \<Rightarrow> id' p) @
     newline @ lit ''      ''"

text \<open>The filter \<^verbatim>\<open>(v) => v\<close>: \<^verbatim>\<open>undefined\<close> and the empty string are falsy.\<close>
definition truthy :: "jsstring option \<Rightarrow> bool" where
  "truthy v = (case v of None \<Rightarrow> False | Some s \<Rightarrow> s \<noteq> [])"

text \<open>\<^verbatim>\<open>[...pipeline.logs, pipeline.comment].filter((v) => v).join('\n')\<close>\<close>
definition debugText :: "pipeline \<Rightarrow> jsstring" where
  "debugText p =
     join newline (map the (filter truthy (map Some (logs p) @ [comment p])))"

text \<open>
  The local closure \<^verbatim>\<open>printDebug\<close>: it takes the flag \<^verbatim>\<open>isLogPrinted\<close> and returns
  the events emitted with the flag's new value.
\<close>
definition printDebug ::
  "(jsstring \<Rightarrow> jsstring) \<Rightarrow> bool \<Rightarrow> pipeline \<Rightarrow> bool \<Rightarrow> event list \<times> bool" where
  "printDebug dim verbose' p isLogPrinted =
     (if verbose' \<and> \<not> isLogPrinted then ([Log (dim (debugText p))], True)
      else ([], isLogPrinted))"

definition stageError :: "jsstring \<Rightarrow> jsstring" where
  "stageError stage = cross_mark @ lit '' An error occurred while '' @ stage @ lit '' the squid''"

definition unexpectedError :: jsstring where
  "unexpectedError = cross_mark @
     lit '' An unexpected error occurred. Please report to Discord https://discord.gg/KRvRcBdhEE or SquidDevs https://t.me/HydraDevs''"

definition runningUp :: "jsstring \<Rightarrow> jsstring" where
  "runningUp url =
     lit ''Squid is running up. Your squid will be shortly available at '' @ url @ lit '' ''"

text \<open>
  The closure passed to \<^verbatim>\<open>doUntil\<close>, one call of it. \<^verbatim>\<open>lastStatus\<close> is the variable it
  captures (\<open>None\<close> is \<^verbatim>\<open>undefined\<close>); \<open>response\<close> is what the fetch resolves to
  (\<open>None\<close> is a falsy pipeline). \<open>streamed\<close> are the lines \<^verbatim>\<open>streamSquidLogs\<close> hands to
  \<^verbatim>\<open>onLog\<close> before it resolves. The result is the events of the call, how it ends, and
  \<^verbatim>\<open>lastStatus\<close> afterwards.

  Modelled from the spec: \<^verbatim>\<open>getDeployPipeline\<close> and \<^verbatim>\<open>streamSquidLogs\<close> are defined in
  \<^verbatim>\<open>rest-client/routes/pipeline\<close> and \<^verbatim>\<open>api\<close>, which are not part of the sources at hand.
  Following section 6 of the spec, a fetch resolves to a snapshot or to nothing, and the
  streamer delivers its lines in order, each once, and then resolves; what they deliver is a
  parameter.
\<close>
definition tick ::
  "(jsstring \<Rightarrow> jsstring) \<Rightarrow> jsstring list \<Rightarrow> params \<Rightarrow> jsstring option \<Rightarrow> pipeline option
     \<Rightarrow> event list \<times> completion \<times> jsstring option" where
  "tick dim streamed prm lastStatus response =
    (let verbose' = (case verbose prm of None \<Rightarrow> True | Some v \<Rightarrow> v);
         fetch = [GetDeployPipeline (squidName prm) (versionName prm)];
         trace = traceDebug dim (squidName prm) (versionName prm) response;
         isLogPrinted = False
     in case response of
       None \<Rightarrow> (fetch, Return True, lastStatus)
     | Some p \<Rightarrow>
        (let changed = (Some (status p) \<noteq> lastStatus);
             lastStatus' = (if changed then Some (status p) else lastStatus);
             stop = (if changed then [ActionStop check_mark] else []);
             dbg = fst (printDebug dim verbose' p isLogPrinted)
         in
         if status p = CREATED then
           (let start = [ActionStart (clock @ lit '' Preparing your squid'')];
                msg = buildPipelineErrorMessage (stageError (lit ''building'')) trace
            in if isErrorOccurred p
               then (fetch @ stop @ start @ dbg @ [Error msg], Throw msg, lastStatus')
               else (fetch @ stop @ start, Return False, lastStatus'))
         else if status p = IMAGE_BUILDING then
           (let start = [ActionStart (clock @ lit '' Building your squid'')];
                msg = buildPipelineErrorMessage (stageError (lit ''building'')) trace
            in if isErrorOccurred p
               then (fetch @ stop @ start @ dbg @ [Error msg], Throw msg, lastStatus')
               else (fetch @ stop @ start, Return False, lastStatus'))
         else if status p = IMAGE_PUSHING then
           (let start = [ActionStart (clock @ lit '' Publishing your squid'')];
                msg = buildPipelineErrorMessage (stageError (lit ''publishing'')) trace
            in if isErrorOccurred p
               then (fetch @ stop @ start @ dbg @ [Error msg], Throw msg, lastStatus')
               else (fetch @ stop @ start, Return False, lastStatus'))
         else if status p = DEPLOYING then
           (let start = [ActionStart (clock @ lit '' Deploying your squid'')];
                msg = buildPipelineErrorMessage (stageError (lit ''deploying'')) trace
            in if isErrorOccurred p
               then (fetch @ stop @ start @ dbg @ [Error msg], Throw msg, lastStatus')
               else (fetch @ stop @ start, Return False, lastStatus'))
         else if status p = OK then
           (fetch @ stop @ dbg @
              [Log (runningUp (deploymentUrl prm)),
               ActionStart (lit ''Streaming logs from the squid''),
               StreamSquidLogs (orgCode prm) (squidName prm) (versionName prm)] @
              map Log streamed,
            Return True, lastStatus')
         else
           (fetch @ stop @ dbg @ [Error unexpectedError], Throw unexpectedError, lastStatus')))"

text \<open>
  \<^verbatim>\<open>doUntil\<close>: call \<^verbatim>\<open>fn\<close>; return when it is done, otherwise pause and call it again. The
  state \<open>s\<close> is what the closure captures, \<open>rs\<close> the results its fetches resolve to, one a call.
\<close>
fun doUntil ::
  "('s \<Rightarrow> 'r \<Rightarrow> event list \<times> completion \<times> 's) \<Rightarrow> nat \<Rightarrow> 's \<Rightarrow> 'r list \<Rightarrow> event list \<times> outcome" where
  "doUntil fn pause s [] = ([], Pending)"
| "doUntil fn pause s (r # rs) =
     (case fn s r of
        (evs, Throw e, s') \<Rightarrow> (evs, Thrown e)
      | (evs, Return done, s') \<Rightarrow>
          (if done then (evs, Returned)
           else (evs @ [Sleep pause] @ fst (doUntil fn pause s' rs),
                 snd (doUntil fn pause s' rs))))"

definition pollDeployPipelines ::
  "(jsstring \<Rightarrow> jsstring) \<Rightarrow> jsstring list \<Rightarrow> params \<Rightarrow> pipeline option list \<Rightarrow> event list \<times> outcome" where
  "pollDeployPipelines dim streamed prm responses =
     doUntil (tick dim streamed prm) 3000 None responses"

section \<open>Name and version\<close>

text \<open>
  The two patterns of \<^verbatim>\<open>parseNameAndVersion\<close> are built from single characters,
  concatenation and \<^verbatim>\<open>+\<close>. A pattern is a regular expression over code units, matched by
  derivatives; \<open>Atom P\<close> accepts one code unit that satisfies \<open>P\<close>.
\<close>
datatype rx = Zero | One | Atom "jschar \<Rightarrow> bool" | Alt rx rx | Seq rx rx | Star rx

fun nullable :: "rx \<Rightarrow> bool" where
  "nullable Zero = False"
| "nullable One = True"
| "nullable (Atom P) = False"
| "nullable (Alt r s) = (nullable r \<or> nullable s)"
| "nullable (Seq r s) = (nullable r \<and> nullable s)"
| "nullable (Star r) = True"

fun deriv :: "jschar \<Rightarrow> rx \<Rightarrow> rx" where
  "deriv c Zero = Zero"
| "deriv c One = Zero"
| "deriv c (Atom P) = (if P c then One else Zero)"
| "deriv c (Alt r s) = Alt (deriv c r) (deriv c s)"
| "deriv c (Seq r s) =
     (if nullable r then Alt (Seq (deriv c r) s) (deriv c s) else Seq (deriv c r) s)"
| "deriv c (Star r) = Seq (deriv c r) (Star r)"

text \<open>The pattern matches the whole of the string.\<close>
fun accepts :: "rx \<Rightarrow> jsstring \<Rightarrow> bool" where
  "accepts r [] = nullable r"
| "accepts r (c # cs) = accepts (deriv c r) cs"

text \<open>
  \<^verbatim>\<open>s.match(/r/g)\<close> is not \<^verbatim>\<open>null\<close>: some run of consecutive code units of \<open>s\<close>
  matches the pattern.
\<close>
definition matchExists :: "rx \<Rightarrow> jsstring \<Rightarrow> bool" where
  "matchExists r s = (\<exists>w \<in> set (sublists s). accepts r w)"

text \<open>
  The line terminators of ECMAScript (LF, CR, U+2028, U+2029): the code units that
  \<^verbatim>\<open>.\<close> does not accept.
\<close>
definition lineTerminator :: "jschar \<Rightarrow> bool" where
  "lineTerminator c = (c = 0x0A \<or> c = 0x0D \<or> c = 0x2028 \<or> c = 0x2029)"

definition at_sign :: jschar where
  "at_sign = 0x40"

definition dot :: rx where
  "dot = Atom (\<lambda>c. \<not> lineTerminator c)"

definition oneOrMore :: "rx \<Rightarrow> rx" where
  "oneOrMore r = Seq r (Star r)"

text \<open>
  The pattern \<^verbatim>\<open>/.+@.+/gi\<close>. The flag \<^verbatim>\<open>i\<close> changes nothing: \<^verbatim>\<open>@\<close> has no other
  case and \<^verbatim>\<open>.\<close> does not look at case.
\<close>
definition nameAtVersion :: rx where
  "nameAtVersion = Seq (oneOrMore dot) (Seq (Atom (\<lambda>c. c = at_sign)) (oneOrMore dot))"

text \<open>\<^verbatim>\<open>String.prototype.split\<close> with a separator of one code unit.\<close>
fun split :: "jschar \<Rightarrow> jsstring \<Rightarrow> jsstring list" where
  "split sep [] = [[]]"
| "split sep (c # cs) =
     (if c = sep then [] # split sep cs
      else (c # hd (split sep cs)) # tl (split sep cs))"

text \<open>Indexing an array: \<^verbatim>\<open>undefined\<close> out of range.\<close>
definition nth_opt :: "'a list \<Rightarrow> nat \<Rightarrow> 'a option" where
  "nth_opt xs i = (if i < length xs then Some (xs ! i) else None)"

definition formatError :: jsstring where
  "formatError = lit ''Required format: <name>@<version>. Symbol @ not allowed in names''"

text \<open>
  \<^verbatim>\<open>parseNameAndVersion\<close>: \<^verbatim>\<open>command.error\<close> throws (\<open>Inl\<close>); otherwise the pair of
  \<^verbatim>\<open>squidName\<close> and \<^verbatim>\<open>versionName\<close> is returned. The matches of \<^verbatim>\<open>/@/g\<close> are the
  occurrences of \<^verbatim>\<open>@\<close>.
\<close>
definition parseNameAndVersion :: "jsstring \<Rightarrow> jsstring + jsstring option \<times> jsstring option" where
  "parseNameAndVersion nameAndVersion =
     (if \<not> matchExists nameAtVersion nameAndVersion
         \<or> length (filter (\<lambda>c. c = at_sign) nameAndVersion) \<noteq> 1
      then Inl formatError
      else Inr (nth_opt (split at_sign nameAndVersion) 0, nth_opt (split at_sign nameAndVersion) 1))"

section \<open>Vocabulary of the properties\<close>

text \<open>The four statuses with a spinner label, and the label and error wording of each.\<close>
definition isStage :: "jsstring \<Rightarrow> bool" where
  "isStage s = (s = CREATED \<or> s = IMAGE_BUILDING \<or> s = IMAGE_PUSHING \<or> s = DEPLOYING)"

definition stageLabel :: "jsstring \<Rightarrow> jsstring" where
  "stageLabel s = clock @ lit
     (if s = CREATED then '' Preparing your squid''
      else if s = IMAGE_BUILDING then '' Building your squid''
      else if s = IMAGE_PUSHING then '' Publishing your squid''
      else '' Deploying your squid'')"

definition stageWord :: "jsstring \<Rightarrow> jsstring" where
  "stageWord s = lit
     (if s = IMAGE_PUSHING then ''publishing''
      else if s = DEPLOYING then ''deploying''
      else ''building'')"

definition stopEvents :: "jsstring option \<Rightarrow> pipeline \<Rightarrow> event list" where
  "stopEvents lastStatus p = (if Some (status p) \<noteq> lastStatus then [ActionStop check_mark] else [])"

definition debugEvents :: "(jsstring \<Rightarrow> jsstring) \<Rightarrow> params \<Rightarrow> pipeline \<Rightarrow> event list" where
  "debugEvents dim prm p = (if verbose prm = Some False then [] else [Log (dim (debugText p))])"

definition stageMessage :: "(jsstring \<Rightarrow> jsstring) \<Rightarrow> params \<Rightarrow> pipeline \<Rightarrow> jsstring" where
  "stageMessage dim prm p =
     buildPipelineErrorMessage (stageError (stageWord (status p)))
       (traceDebug dim (squidName prm) (versionName prm) (Some p))"

text \<open>Counting the fetches in a trace, and the status the closure last stored.\<close>
fun isFetch :: "event \<Rightarrow> bool" where
  "isFetch (GetDeployPipeline squid version) = True"
| "isFetch e = False"

definition fetches :: "event list \<Rightarrow> nat" where
  "fetches evs = length (filter isFetch evs)"

definition seen :: "pipeline option list \<Rightarrow> jsstring option" where
  "seen pre = (if pre = [] then None else map_option status (last pre))"

text \<open>
  The expected order of the recognized statuses, and a sequence of snapshots that only moves
  forward in it, with recognized statuses only and the error flag never set.
\<close>
definition rank :: "jsstring \<Rightarrow> nat" where
  "rank s =
     (if s = CREATED then 0 else if s = IMAGE_BUILDING then 1 else if s = IMAGE_PUSHING then 2
      else if s = DEPLOYING then 3 else 4)"

definition forward :: "pipeline list \<Rightarrow> bool" where
  "forward snaps =
     ((\<forall>p \<in> set snaps. (isStage (status p) \<or> status p = OK) \<and> \<not> isErrorOccurred p) \<and>
      sorted (map (\<lambda>p. rank (status p)) snaps))"

text \<open>What a pattern denotes: the strings it matches in whole.\<close>
inductive_set star :: "jsstring set \<Rightarrow> jsstring set" for A :: "jsstring set" where
  star_empty: "[] \<in> star A"
| star_step: "u \<in> A \<Longrightarrow> v \<in> star A \<Longrightarrow> u @ v \<in> star A"

fun lang :: "rx \<Rightarrow> jsstring set" where
  "lang Zero = {}"
| "lang One = {[]}"
| "lang (Atom P) = {[c] | c. P c}"
| "lang (Alt r s) = lang r \<union> lang s"
| "lang (Seq r s) = {u @ v | u v. u \<in> lang r \<and> v \<in> lang s}"
| "lang (Star r) = star (lang r)"

section \<open>Example inputs\<close>

text \<open>
  \<open>plain\<close> is chalk with colours switched off: \<^verbatim>\<open>dim\<close> returns its argument unchanged.
\<close>
definition plain :: "jsstring \<Rightarrow> jsstring" where "plain s = s"
definition demoParams :: params where
  "demoParams = \<lparr>orgCode = lit ''org'', squidName = lit ''my-squid'', versionName = lit ''v1'',
     deploymentUrl = lit ''https://x'', verbose = None\<rparr>"
definition snapshot :: "jsstring \<Rightarrow> bool \<Rightarrow> pipeline" where
  "snapshot st err = \<lparr>id' = lit ''42'', status = st, isErrorOccurred = err,
     logs = [lit ''step 1'', [], lit ''step 2''], comment = None\<rparr>"

section \<open>One call of the loop body\<close>

lemma status_distinct:
  "CREATED \<noteq> IMAGE_BUILDING" "CREATED \<noteq> IMAGE_PUSHING" "CREATED \<noteq> DEPLOYING" "CREATED \<noteq> OK"
  "IMAGE_BUILDING \<noteq> CREATED" "IMAGE_BUILDING \<noteq> IMAGE_PUSHING" "IMAGE_BUILDING \<noteq> DEPLOYING" "IMAGE_BUILDING \<noteq> OK"
  "IMAGE_PUSHING \<noteq> CREATED" "IMAGE_PUSHING \<noteq> IMAGE_BUILDING" "IMAGE_PUSHING \<noteq> DEPLOYING" "IMAGE_PUSHING \<noteq> OK"
  "DEPLOYING \<noteq> CREATED" "DEPLOYING \<noteq> IMAGE_BUILDING" "DEPLOYING \<noteq> IMAGE_PUSHING" "DEPLOYING \<noteq> OK"
  "OK \<noteq> CREATED" "OK \<noteq> IMAGE_BUILDING" "OK \<noteq> IMAGE_PUSHING" "OK \<noteq> DEPLOYING"
  by (simp_all add: CREATED_def IMAGE_BUILDING_def IMAGE_PUSHING_def DEPLOYING_def OK_def lit_def)

lemma debug_fst:
  "fst (printDebug dim (case verbose prm of None \<Rightarrow> True | Some v \<Rightarrow> v) p False) = debugEvents dim prm p"
  by (cases "verbose prm") (auto simp: printDebug_def debugEvents_def)

lemma tick_None:
  "tick dim streamed prm ls None = ([GetDeployPipeline (squidName prm) (versionName prm)], Return True, ls)"
  by (simp add: tick_def)

lemma tick_stage:
  assumes "isStage (status p)"
  shows "tick dim streamed prm ls (Some p) =
    (if isErrorOccurred p
     then ([GetDeployPipeline (squidName prm) (versionName prm)] @ stopEvents ls p @
           [ActionStart (stageLabel (status p))] @ debugEvents dim prm p @
           [Error (stageMessage dim prm p)],
           Throw (stageMessage dim prm p), Some (status p))
     else ([GetDeployPipeline (squidName prm) (versionName prm)] @ stopEvents ls p @
           [ActionStart (stageLabel (status p))], Return False, Some (status p)))"
  using assms unfolding isStage_def
  by (auto simp: tick_def Let_def debug_fst stopEvents_def stageLabel_def stageWord_def
      stageMessage_def status_distinct)

lemma tick_OK:
  assumes "status p = OK"
  shows "tick dim streamed prm ls (Some p) =
    ([GetDeployPipeline (squidName prm) (versionName prm)] @ stopEvents ls p @
     debugEvents dim prm p @
     [Log (runningUp (deploymentUrl prm)),
      ActionStart (lit ''Streaming logs from the squid''),
      StreamSquidLogs (orgCode prm) (squidName prm) (versionName prm)] @ map Log streamed,
     Return True, Some OK)"
  using assms
  by (auto simp: tick_def Let_def debug_fst stopEvents_def status_distinct)

lemma tick_other:
  assumes "\<not> isStage (status p)" "status p \<noteq> OK"
  shows "tick dim streamed prm ls (Some p) =
    ([GetDeployPipeline (squidName prm) (versionName prm)] @ stopEvents ls p @
     debugEvents dim prm p @ [Error unexpectedError],
     Throw unexpectedError, Some (status p))"
  using assms unfolding isStage_def
  by (auto simp: tick_def Let_def debug_fst stopEvents_def)


section \<open>The loop\<close>

lemma fetches_simps [simp]:
  "fetches [] = 0"
  "fetches (e # evs) = (if isFetch e then Suc (fetches evs) else fetches evs)"
  "fetches (xs @ ys) = fetches xs + fetches ys"
  by (simp_all add: fetches_def)

lemma fetches_stop [simp]: "fetches (stopEvents ls p) = 0"
  by (simp add: stopEvents_def)

lemma fetches_debug [simp]: "fetches (debugEvents dim prm p) = 0"
  by (simp add: debugEvents_def)

lemma fetches_map_Log [simp]: "fetches (map Log xs) = 0"
  by (induction xs) simp_all

lemma tick_cases:
  obtains (not_found) "response = None"
  | (stage) p where "response = Some p" "isStage (status p)"
  | (ok) p where "response = Some p" "status p = OK"
  | (other) p where "response = Some p" "\<not> isStage (status p)" "status p \<noteq> OK"
  by (cases response) auto

lemma doUntil_Pending_Cons:
  assumes "snd (doUntil (tick dim streamed prm) pause ls (r # rs)) = Pending"
  shows "\<exists>p. r = Some p \<and> isStage (status p) \<and> \<not> isErrorOccurred p \<and>
    snd (doUntil (tick dim streamed prm) pause (Some (status p)) rs) = Pending"
  using assms
  by (cases r rule: tick_cases) (auto simp: tick_None tick_stage tick_OK tick_other split: if_splits)

lemma doUntil_Pending_append:
  assumes "snd (doUntil (tick dim streamed prm) pause ls pre) = Pending"
  shows "doUntil (tick dim streamed prm) pause ls (pre @ rs) =
    (fst (doUntil (tick dim streamed prm) pause ls pre) @
     fst (doUntil (tick dim streamed prm) pause (if pre = [] then ls else seen pre) rs),
     snd (doUntil (tick dim streamed prm) pause (if pre = [] then ls else seen pre) rs))"
  using assms
proof (induction pre arbitrary: ls)
  case Nil
  then show ?case by simp
next
  case (Cons r pre)
  from doUntil_Pending_Cons[OF Cons.prems] obtain p where
    p: "r = Some p" "isStage (status p)" "\<not> isErrorOccurred p"
       "snd (doUntil (tick dim streamed prm) pause (Some (status p)) pre) = Pending"
    by blast
  have s: "(if pre = [] then Some (status p) else seen pre) = seen (r # pre)"
    by (simp add: seen_def p)
  show ?case
    using Cons.IH[OF p(4)] p(1,2,3) s by (simp add: tick_stage)
qed

lemma doUntil_Pending_fetches:
  assumes "snd (doUntil (tick dim streamed prm) pause ls pre) = Pending"
  shows "fetches (fst (doUntil (tick dim streamed prm) pause ls pre)) = length pre"
  using assms
proof (induction pre arbitrary: ls)
  case Nil
  then show ?case by simp
next
  case (Cons r pre)
  from doUntil_Pending_Cons[OF Cons.prems] obtain p where
    p: "r = Some p" "isStage (status p)" "\<not> isErrorOccurred p"
       "snd (doUntil (tick dim streamed prm) pause (Some (status p)) pre) = Pending"
    by blast
  show ?case
    using Cons.IH[OF p(4)] p(1,2,3) by (simp add: tick_stage)
qed

lemma poll_Pending_append:
  assumes "snd (pollDeployPipelines dim streamed prm pre) = Pending"
  shows "pollDeployPipelines dim streamed prm (pre @ rs) =
    (fst (pollDeployPipelines dim streamed prm pre) @
     fst (doUntil (tick dim streamed prm) 3000 (seen pre) rs),
     snd (doUntil (tick dim streamed prm) 3000 (seen pre) rs))"
  using doUntil_Pending_append[of dim streamed prm 3000 None pre rs] assms
  by (simp add: pollDeployPipelines_def seen_def)

lemma poll_Pending_fetches:
  assumes "snd (pollDeployPipelines dim streamed prm pre) = Pending"
  shows "fetches (fst (pollDeployPipelines dim streamed prm pre)) = length pre"
  using doUntil_Pending_fetches[of dim streamed prm 3000 None pre] assms
  by (simp add: pollDeployPipelines_def)

lemma seen_Pending:
  assumes "snd (doUntil (tick dim streamed prm) pause ls pre) = Pending" "pre \<noteq> []"
  shows "\<exists>s. seen pre = Some s \<and> isStage s"
  using assms
proof (induction pre arbitrary: ls)
  case Nil
  then show ?case by simp
next
  case (Cons r pre)
  from doUntil_Pending_Cons[OF Cons.prems(1)] obtain p where
    p: "r = Some p" "isStage (status p)" "\<not> isErrorOccurred p"
       "snd (doUntil (tick dim streamed prm) pause (Some (status p)) pre) = Pending"
    by blast
  show ?case
  proof (cases "pre = []")
    case True
    then show ?thesis using p by (simp add: seen_def)
  next
    case False
    from Cons.IH[OF p(4) False] show ?thesis using False by (simp add: seen_def)
  qed
qed

lemma seen_poll_Pending:
  assumes "snd (pollDeployPipelines dim streamed prm pre) = Pending"
  shows "seen pre = None \<or> (\<exists>s. seen pre = Some s \<and> isStage s)"
proof (cases "pre = []")
  case True
  then show ?thesis by (simp add: seen_def)
next
  case False
  with seen_Pending[of dim streamed prm 3000 None pre] assms show ?thesis
    by (simp add: pollDeployPipelines_def)
qed

lemma demo_fields:
  "orgCode demoParams = lit ''org''" "squidName demoParams = lit ''my-squid''"
  "versionName demoParams = lit ''v1''" "deploymentUrl demoParams = lit ''https://x''"
  "verbose demoParams = None"
  by (simp_all add: demoParams_def)

lemma snapshot_fields:
  "id' (snapshot st err) = lit ''42''" "status (snapshot st err) = st"
  "isErrorOccurred (snapshot st err) = err"
  "logs (snapshot st err) = [lit ''step 1'', [], lit ''step 2'']"
  "comment (snapshot st err) = None"
  by (simp_all add: snapshot_def)

lemma demo_pending:
  "pollDeployPipelines plain [] demoParams [Some (snapshot CREATED False)] =
     ([GetDeployPipeline (lit ''my-squid'') (lit ''v1''), ActionStop check_mark,
       ActionStart (clock @ lit '' Preparing your squid''), Sleep 3000], Pending)"
  by (simp add: pollDeployPipelines_def tick_stage isStage_def snapshot_fields demo_fields
      stopEvents_def stageLabel_def)

section \<open>Pipeline not found\<close>

text \<open>
  C7. On the tick whose fetch reports no pipeline, whatever ticks went before and whatever
  fetch results would follow, the loop returns without an error: the fetch is the only event
  of that tick (no announcement, no debug dump, no log streaming), and it is the last fetch of
  the run.
\<close>
theorem not_found_returns:
  assumes "snd (pollDeployPipelines dim streamed prm pre) = Pending"
  shows "pollDeployPipelines dim streamed prm (pre @ None # rest) =
           (fst (pollDeployPipelines dim streamed prm pre) @
              [GetDeployPipeline (squidName prm) (versionName prm)], Returned)
         \<and> fetches (fst (pollDeployPipelines dim streamed prm (pre @ None # rest))) = Suc (length pre)"
  using poll_Pending_append[OF assms, of "None # rest"] poll_Pending_fetches[OF assms]
  by (simp add: tick_None)

theorem not_found_returns_witness:
  "snd (pollDeployPipelines plain [] demoParams [Some (snapshot CREATED False)]) = Pending \<and>
   pollDeployPipelines plain [] demoParams
     ([Some (snapshot CREATED False)] @ None # [Some (snapshot OK False)]) =
     ([GetDeployPipeline (lit ''my-squid'') (lit ''v1''), ActionStop check_mark,
       ActionStart (clock @ lit '' Preparing your squid''), Sleep 3000,
       GetDeployPipeline (lit ''my-squid'') (lit ''v1'')], Returned)"
proof -
  have h: "snd (pollDeployPipelines plain [] demoParams [Some (snapshot CREATED False)]) = Pending"
    by (simp add: demo_pending)
  from not_found_returns[OF h, of "[Some (snapshot OK False)]"] h show ?thesis
    by (simp add: demo_pending demo_fields)
qed

section \<open>The first tick\<close>

text \<open>
  C10. On the first tick, for every pipeline that is found and whatever its status,
  \<^verbatim>\<open>action.stop\<close> with the check mark is the first call after the fetch:
  \<^verbatim>\<open>lastStatus\<close> is still undefined and differs from every status, and no
  \<^verbatim>\<open>action.start\<close> has come before.
\<close>
theorem first_tick_stops_indicator:
  "take 2 (fst (pollDeployPipelines dim streamed prm (Some p # rest))) =
     [GetDeployPipeline (squidName prm) (versionName prm), ActionStop check_mark]
   \<and> take 2 (fst (tick dim streamed prm None (Some p))) =
     [GetDeployPipeline (squidName prm) (versionName prm), ActionStop check_mark]"
  by (cases "Some p" rule: tick_cases)
    (auto simp: pollDeployPipelines_def tick_stage tick_OK tick_other stopEvents_def)

theorem first_tick_stops_indicator_witness:
  "take 2 (fst (pollDeployPipelines plain [] demoParams
      (Some (snapshot (lit ''FAILED'') True) # [None]))) =
     [GetDeployPipeline (lit ''my-squid'') (lit ''v1''), ActionStop check_mark]"
  using first_tick_stops_indicator[of plain "[]" demoParams "snapshot (lit ''FAILED'') True" "[None]"]
  by (simp add: demo_fields)

section \<open>Stage failures\<close>

lemma traceDebug_nonempty: "traceDebug dim squid version response \<noteq> []"
  by (simp add: traceDebug_def newline_def)

lemma stageMessage_eq:
  "stageMessage dim prm p =
     cross_mark @ lit '' An error occurred while '' @ stageWord (status p) @ lit '' the squid'' @
     lit '' : '' @ traceDebug dim (squidName prm) (versionName prm) (Some p)"
  by (simp add: stageMessage_def buildPipelineErrorMessage_def stageError_def traceDebug_nonempty
      lit_def)

text \<open>
  C2. On the tick whose snapshot has one of the four stage statuses and the error flag set,
  whatever ticks went before and whatever fetch results would follow: the spinner is started
  with the stage's label, \<^verbatim>\<open>printDebug\<close> logs its text unless \<^verbatim>\<open>verbose\<close> is false,
  and \<^verbatim>\<open>command.error\<close> throws a message that names the stage: building for
  \<^verbatim>\<open>CREATED\<close> and \<^verbatim>\<open>IMAGE_BUILDING\<close>, publishing for \<^verbatim>\<open>IMAGE_PUSHING\<close>,
  deploying for \<^verbatim>\<open>DEPLOYING\<close>. The error is the last event of the run and the fetch of
  this tick is the last fetch.
\<close>
theorem stage_failure_fatal:
  assumes "snd (pollDeployPipelines dim streamed prm pre) = Pending"
    and "status p \<in> {CREATED, IMAGE_BUILDING, IMAGE_PUSHING, DEPLOYING}"
    and "isErrorOccurred p"
  shows "pollDeployPipelines dim streamed prm (pre @ Some p # rest) =
           (fst (pollDeployPipelines dim streamed prm pre) @
              [GetDeployPipeline (squidName prm) (versionName prm)] @
              (if seen pre = Some (status p) then [] else [ActionStop check_mark]) @
              [ActionStart (stageLabel (status p))] @
              (if verbose prm = Some False then [] else [Log (dim (debugText p))]) @
              [Error (stageMessage dim prm p)],
            Thrown (stageMessage dim prm p))
         \<and> fetches (fst (pollDeployPipelines dim streamed prm (pre @ Some p # rest))) = Suc (length pre)
         \<and> stageMessage dim prm p =
             cross_mark @ lit '' An error occurred while '' @
             lit (if status p = IMAGE_PUSHING then ''publishing''
                  else if status p = DEPLOYING then ''deploying'' else ''building'') @
             lit '' the squid'' @ lit '' : '' @
             traceDebug dim (squidName prm) (versionName prm) (Some p)"
proof -
  from assms(2) have stage: "isStage (status p)"
    by (auto simp: isStage_def)
  show ?thesis
    using poll_Pending_append[OF assms(1), of "Some p # rest"] poll_Pending_fetches[OF assms(1)]
      assms(3)
    by (simp add: tick_stage[OF stage] stopEvents_def debugEvents_def stageMessage_eq stageWord_def)
qed

lemma demo_debugText:
  "debugText (snapshot st err) = lit ''step 1'' @ newline @ lit ''step 2''"
  by (simp add: debugText_def snapshot_fields truthy_def lit_def)

theorem stage_failure_fatal_witness:
  "snd (pollDeployPipelines plain [] demoParams [Some (snapshot CREATED False)]) = Pending \<and>
   status (snapshot IMAGE_PUSHING True) \<in> {CREATED, IMAGE_BUILDING, IMAGE_PUSHING, DEPLOYING} \<and>
   isErrorOccurred (snapshot IMAGE_PUSHING True) \<and>
   snd (pollDeployPipelines plain [] demoParams
     ([Some (snapshot CREATED False)] @ Some (snapshot IMAGE_PUSHING True) # [Some (snapshot OK False)])) =
     Thrown (cross_mark @ lit '' An error occurred while publishing the squid : '' @
       newline @ lit ''      ------'' @
       newline @ lit ''      Please report to t.me/HydraDevs '' @
       newline @ lit ''      Squid: my-squid'' @
       newline @ lit ''      Version: v1'' @
       newline @ lit ''      Deploy: 42'' @
       newline @ lit ''      '') \<and>
   fetches (fst (pollDeployPipelines plain [] demoParams
     ([Some (snapshot CREATED False)] @ Some (snapshot IMAGE_PUSHING True) # [Some (snapshot OK False)]))) = 2"
proof -
  have h1: "snd (pollDeployPipelines plain [] demoParams [Some (snapshot CREATED False)]) = Pending"
    by (simp add: demo_pending)
  have h2: "status (snapshot IMAGE_PUSHING True) \<in> {CREATED, IMAGE_BUILDING, IMAGE_PUSHING, DEPLOYING}"
    by (simp add: snapshot_fields)
  have h3: "isErrorOccurred (snapshot IMAGE_PUSHING True)"
    by (simp add: snapshot_fields)
  from stage_failure_fatal[OF h1 h2 h3, of "[Some (snapshot OK False)]"] h1 h2 h3 show ?thesis
    by (simp add: demo_pending demo_fields snapshot_fields traceDebug_def plain_def lit_def
        newline_def status_distinct)
qed

section \<open>Verbose switched off\<close>

lemma quiet_debugEvents:
  "verbose prm = Some False \<Longrightarrow> debugEvents dim prm p = []"
  by (simp add: debugEvents_def)

lemma quiet_tick:
  assumes "verbose prm = Some False"
    and "Log t \<in> set (fst (tick dim streamed prm ls r))"
  shows "t = runningUp (deploymentUrl prm) \<or> t \<in> set streamed"
  using assms
  by (cases r rule: tick_cases)
    (auto simp: tick_None tick_stage tick_OK tick_other quiet_debugEvents stopEvents_def
      split: if_splits)

lemma quiet_doUntil:
  assumes "verbose prm = Some False"
    and "Log t \<in> set (fst (doUntil (tick dim streamed prm) pause ls rs))"
  shows "t = runningUp (deploymentUrl prm) \<or> t \<in> set streamed"
  using assms(2)
proof (induction rs arbitrary: ls)
  case Nil
  then show ?case by simp
next
  case (Cons r rs)
  obtain evs c ls' where t: "tick dim streamed prm ls r = (evs, c, ls')"
    by (cases "tick dim streamed prm ls r") auto
  have here: "Log t \<in> set evs \<Longrightarrow> ?case"
    using quiet_tick[OF assms(1), of t dim streamed ls r] t by simp
  show ?case
  proof (cases c)
    case (Throw e)
    with Cons.prems t here show ?thesis by simp
  next
    case (Return d)
    show ?thesis
    proof (cases d)
      case True
      with Cons.prems t here Return show ?thesis by simp
    next
      case False
      with Cons.prems t Return
      have "Log t \<in> set evs \<or> Log t \<in> set (fst (doUntil (tick dim streamed prm) pause ls' rs))"
        by auto
      with here Cons.IH show ?thesis by blast
    qed
  qed
qed

text \<open>
  C8. With \<^verbatim>\<open>verbose\<close> false, whatever the fetches return and whichever branch each tick
  takes, \<^verbatim>\<open>printDebug\<close> emits nothing: every text passed to \<^verbatim>\<open>command.log\<close> during the
  run is the announcement of the deployment URL or a line forwarded from the log stream.
\<close>
theorem quiet_run_has_no_debug_dump:
  assumes "verbose prm = Some False"
    and "Log t \<in> set (fst (pollDeployPipelines dim streamed prm rs))"
  shows "(t = runningUp (deploymentUrl prm) \<or> t \<in> set streamed)
         \<and> printDebug dim False p isLogPrinted = ([], isLogPrinted)"
  using quiet_doUntil[OF assms(1), of t dim streamed 3000 None rs] assms(2)
  by (simp add: pollDeployPipelines_def printDebug_def)

theorem quiet_run_has_no_debug_dump_witness:
  "verbose (demoParams\<lparr>verbose := Some False\<rparr>) = Some False \<and>
   Log (runningUp (lit ''https://x'')) \<in> set (fst (pollDeployPipelines plain [lit ''hello'']
      (demoParams\<lparr>verbose := Some False\<rparr>) [Some (snapshot OK False)])) \<and>
   pollDeployPipelines plain [lit ''hello''] (demoParams\<lparr>verbose := Some False\<rparr>)
      [Some (snapshot (lit ''FAILED'') False)] =
     ([GetDeployPipeline (lit ''my-squid'') (lit ''v1''), ActionStop check_mark,
       Error unexpectedError], Thrown unexpectedError)"
proof -
  have h1: "verbose (demoParams\<lparr>verbose := Some False\<rparr>) = Some False"
    by simp
  have run: "fst (pollDeployPipelines plain [lit ''hello''] (demoParams\<lparr>verbose := Some False\<rparr>)
      [Some (snapshot OK False)]) =
     [GetDeployPipeline (lit ''my-squid'') (lit ''v1''), ActionStop check_mark,
      Log (runningUp (lit ''https://x'')),
      ActionStart (lit ''Streaming logs from the squid''),
      StreamSquidLogs (lit ''org'') (lit ''my-squid'') (lit ''v1''), Log (lit ''hello'')]"
    by (simp add: pollDeployPipelines_def tick_OK snapshot_fields demoParams_def stopEvents_def
        debugEvents_def)
  have h2: "Log (runningUp (lit ''https://x'')) \<in> set (fst (pollDeployPipelines plain [lit ''hello'']
      (demoParams\<lparr>verbose := Some False\<rparr>) [Some (snapshot OK False)]))"
    by (simp add: run)
  have other: "\<not> isStage (status (snapshot (lit ''FAILED'') False))"
    "status (snapshot (lit ''FAILED'') False) \<noteq> OK"
    by (simp_all add: isStage_def snapshot_fields CREATED_def IMAGE_BUILDING_def IMAGE_PUSHING_def
        DEPLOYING_def OK_def lit_def)
  have run2: "pollDeployPipelines plain [lit ''hello''] (demoParams\<lparr>verbose := Some False\<rparr>)
      [Some (snapshot (lit ''FAILED'') False)] =
     ([GetDeployPipeline (lit ''my-squid'') (lit ''v1''), ActionStop check_mark,
       Error unexpectedError], Thrown unexpectedError)"
    by (simp add: pollDeployPipelines_def tick_other[OF other] demoParams_def stopEvents_def
        debugEvents_def)
  from quiet_run_has_no_debug_dump[OF h1 h2] h1 h2 run2 show ?thesis
    by simp
qed

section \<open>Unchanged status\<close>

text \<open>
  C3 as stated fails: two fetches in a row report \<^verbatim>\<open>CREATED\<close>, and the second tick, where the
  status is unchanged, calls \<^verbatim>\<open>action.start\<close> again.
\<close>
theorem unchanged_status_counterexample:
  "fst (pollDeployPipelines plain [] demoParams
         [Some (snapshot CREATED False), Some (snapshot CREATED False)]) =
     [GetDeployPipeline (lit ''my-squid'') (lit ''v1''), ActionStop check_mark,
      ActionStart (clock @ lit '' Preparing your squid''), Sleep 3000,
      GetDeployPipeline (lit ''my-squid'') (lit ''v1''),
      ActionStart (clock @ lit '' Preparing your squid''), Sleep 3000]"
  by (simp add: pollDeployPipelines_def tick_stage isStage_def snapshot_fields demo_fields
      stopEvents_def stageLabel_def)

text \<open>
  C3, amended. On every tick whose snapshot has one of the four stage statuses, whether or not
  the status changed, \<^verbatim>\<open>action.start\<close> is called once with the label of the status. What
  the comparison with the previous status decides is the stop indicator: it is signalled
  when the status differs from the one of the previous tick (or on the first tick) and not
  when it is unchanged. The trace up to and including such a tick is given in full.
\<close>
theorem stage_tick_events:
  assumes "snd (pollDeployPipelines dim streamed prm pre) = Pending"
    and "status p \<in> {CREATED, IMAGE_BUILDING, IMAGE_PUSHING, DEPLOYING}"
  shows "fst (pollDeployPipelines dim streamed prm (pre @ [Some p])) =
           fst (pollDeployPipelines dim streamed prm pre) @
           [GetDeployPipeline (squidName prm) (versionName prm)] @
           (if seen pre = Some (status p) then [] else [ActionStop check_mark]) @
           [ActionStart (stageLabel (status p))] @
           (if isErrorOccurred p
            then (if verbose prm = Some False then [] else [Log (dim (debugText p))]) @
                 [Error (stageMessage dim prm p)]
            else [Sleep 3000])
         \<and> stageLabel (status p) = clock @ lit
             (if status p = CREATED then '' Preparing your squid''
              else if status p = IMAGE_BUILDING then '' Building your squid''
              else if status p = IMAGE_PUSHING then '' Publishing your squid''
              else '' Deploying your squid'')"
proof -
  from assms(2) have stage: "isStage (status p)"
    by (auto simp: isStage_def)
  show ?thesis
    using poll_Pending_append[OF assms(1), of "[Some p]"]
    by (simp add: tick_stage[OF stage] stopEvents_def debugEvents_def stageLabel_def)
qed

theorem stage_tick_events_witness:
  "snd (pollDeployPipelines plain [] demoParams [Some (snapshot CREATED False)]) = Pending \<and>
   status (snapshot CREATED False) \<in> {CREATED, IMAGE_BUILDING, IMAGE_PUSHING, DEPLOYING} \<and>
   seen [Some (snapshot CREATED False)] = Some (status (snapshot CREATED False)) \<and>
   fst (pollDeployPipelines plain [] demoParams
         ([Some (snapshot CREATED False)] @ [Some (snapshot CREATED False)])) =
     fst (pollDeployPipelines plain [] demoParams [Some (snapshot CREATED False)]) @
     [GetDeployPipeline (lit ''my-squid'') (lit ''v1''),
      ActionStart (clock @ lit '' Preparing your squid''), Sleep 3000]"
proof -
  have h1: "snd (pollDeployPipelines plain [] demoParams [Some (snapshot CREATED False)]) = Pending"
    by (simp add: demo_pending)
  have h2: "status (snapshot CREATED False) \<in> {CREATED, IMAGE_BUILDING, IMAGE_PUSHING, DEPLOYING}"
    by (simp add: snapshot_fields)
  have h3: "seen [Some (snapshot CREATED False)] = Some (status (snapshot CREATED False))"
    by (simp add: seen_def)
  from stage_tick_events[OF h1 h2] h1 h2 h3 show ?thesis
    by (simp add: demo_fields snapshot_fields)
qed

section \<open>The debug dump\<close>

lemma debugText_eq:
  "debugText p = join newline (filter (\<lambda>l. l \<noteq> []) (logs p) @
     (case comment p of None \<Rightarrow> [] | Some c \<Rightarrow> if c = [] then [] else [c]))"
proof -
  have "map the (filter truthy (map Some ls)) = filter (\<lambda>l. l \<noteq> []) ls" for ls :: "jsstring list"
    by (induction ls) (simp_all add: truthy_def)
  then show ?thesis
    by (simp add: debugText_def truthy_def split: option.split)
qed

lemma traceDebug_parts:
  "sublist (lit ''------'') (traceDebug dim squid version r)"
  "sublist squid (traceDebug dim squid version r)"
  "sublist version (traceDebug dim squid version r)"
  "sublist (id' p) (traceDebug dim squid version (Some p))"
proof -
  have "traceDebug dim squid version r = (newline @ lit ''      '') @ lit ''------'' @
     (newline @ lit ''      Please report to t.me/HydraDevs '' @
      newline @ lit ''      '' @ dim (lit ''Squid:'') @ lit '' '' @ squid @
      newline @ lit ''      '' @ dim (lit ''Version:'') @ lit '' '' @ version @
      newline @ lit ''      '' @ dim (lit ''Deploy:'') @ lit '' '' @
        (case r of None \<Rightarrow> lit ''undefined'' | Some p \<Rightarrow> id' p) @
      newline @ lit ''      '')"
    by (simp add: traceDebug_def lit_def)
  then show "sublist (lit ''------'') (traceDebug dim squid version r)"
    unfolding sublist_def by blast
  have "traceDebug dim squid version r =
     (newline @ lit ''      ------'' @
      newline @ lit ''      Please report to t.me/HydraDevs '' @
      newline @ lit ''      '' @ dim (lit ''Squid:'') @ lit '' '') @ squid @
     (newline @ lit ''      '' @ dim (lit ''Version:'') @ lit '' '' @ version @
      newline @ lit ''      '' @ dim (lit ''Deploy:'') @ lit '' '' @
        (case r of None \<Rightarrow> lit ''undefined'' | Some p \<Rightarrow> id' p) @
      newline @ lit ''      '')"
    by (simp add: traceDebug_def)
  then show "sublist squid (traceDebug dim squid version r)"
    unfolding sublist_def by blast
  have "traceDebug dim squid version r =
     (newline @ lit ''      ------'' @
      newline @ lit ''      Please report to t.me/HydraDevs '' @
      newline @ lit ''      '' @ dim (lit ''Squid:'') @ lit '' '' @ squid @
      newline @ lit ''      '' @ dim (lit ''Version:'') @ lit '' '') @ version @
     (newline @ lit ''      '' @ dim (lit ''Deploy:'') @ lit '' '' @
        (case r of None \<Rightarrow> lit ''undefined'' | Some p \<Rightarrow> id' p) @
      newline @ lit ''      '')"
    by (simp add: traceDebug_def)
  then show "sublist version (traceDebug dim squid version r)"
    unfolding sublist_def by blast
  have "traceDebug dim squid version (Some p) =
     (newline @ lit ''      ------'' @
      newline @ lit ''      Please report to t.me/HydraDevs '' @
      newline @ lit ''      '' @ dim (lit ''Squid:'') @ lit '' '' @ squid @
      newline @ lit ''      '' @ dim (lit ''Version:'') @ lit '' '' @ version @
      newline @ lit ''      '' @ dim (lit ''Deploy:'') @ lit '' '') @ id' p @
     (newline @ lit ''      '')"
    by (simp add: traceDebug_def)
  then show "sublist (id' p) (traceDebug dim squid version (Some p))"
    unfolding sublist_def by blast
qed

lemma log_tick:
  assumes "Log t \<in> set (fst (tick dim streamed prm ls r))"
  shows "(\<exists>p. r = Some p \<and> t = dim (debugText p)) \<or> t = runningUp (deploymentUrl prm) \<or> t \<in> set streamed"
  using assms
  by (cases r rule: tick_cases)
    (auto simp: tick_None tick_stage tick_OK tick_other debugEvents_def stopEvents_def
      split: if_splits)

lemma log_doUntil:
  assumes "Log t \<in> set (fst (doUntil (tick dim streamed prm) pause ls rs))"
  shows "(\<exists>p. Some p \<in> set rs \<and> t = dim (debugText p)) \<or> t = runningUp (deploymentUrl prm)
     \<or> t \<in> set streamed"
  using assms
proof (induction rs arbitrary: ls)
  case Nil
  then show ?case by simp
next
  case (Cons r rs)
  obtain evs c ls' where t: "tick dim streamed prm ls r = (evs, c, ls')"
    by (cases "tick dim streamed prm ls r") auto
  have here: "Log t \<in> set evs \<Longrightarrow> ?case"
    using log_tick[of t dim streamed prm ls r] t by auto
  have later: "Log t \<in> set (fst (doUntil (tick dim streamed prm) pause ls' rs)) \<Longrightarrow> ?case"
    using Cons.IH[of ls'] by auto
  show ?case
  proof (cases c)
    case (Throw e)
    with Cons.prems t here show ?thesis by simp
  next
    case (Return d)
    with Cons.prems t have "Log t \<in> set evs \<or>
        Log t \<in> set (fst (doUntil (tick dim streamed prm) pause ls' rs))"
      by (cases d) auto
    with here later show ?thesis by blast
  qed
qed

text \<open>
  C4 as stated fails: on an \<^verbatim>\<open>OK\<close> snapshot with \<^verbatim>\<open>verbose\<close> left at its default, the text
  that \<^verbatim>\<open>printDebug\<close> logs is the two non-empty log lines and nothing else; the squid name
  is not in it.
\<close>
theorem debug_dump_counterexample:
  "fst (pollDeployPipelines plain [] demoParams [Some (snapshot OK False)]) =
     [GetDeployPipeline (lit ''my-squid'') (lit ''v1''), ActionStop check_mark,
      Log (lit ''step 1'' @ newline @ lit ''step 2''),
      Log (runningUp (lit ''https://x'')),
      ActionStart (lit ''Streaming logs from the squid''),
      StreamSquidLogs (lit ''org'') (lit ''my-squid'') (lit ''v1'')]
   \<and> \<not> sublist (squidName demoParams) (lit ''step 1'' @ newline @ lit ''step 2'')"
proof -
  have "\<not> sublist (squidName demoParams) (lit ''step 1'' @ newline @ lit ''step 2'')"
    by (simp add: demo_fields lit_def newline_def sublist_Cons_right)
  then show ?thesis
    by (simp add: pollDeployPipelines_def tick_OK snapshot_fields demo_fields stopEvents_def
      debugEvents_def demo_debugText plain_def)
qed

text \<open>
  C4, amended. Whenever the debug dump is emitted, its text is \<^verbatim>\<open>dim\<close> applied to the
  snapshot's non-empty log lines followed by the comment, if there is a non-empty one, joined by
  newline. Every text logged during a run is such a dump of a fetched snapshot, the
  announcement of the deployment URL, or a streamed line. The banner, the squid name, the
  version name and the pipeline id are not part of the dump: they are in \<^verbatim>\<open>traceDebug\<close>,
  the text appended to the message of a stage failure.
\<close>
theorem debug_dump_text:
  assumes "Log t \<in> set (fst (pollDeployPipelines dim streamed prm rs))"
  shows "((\<exists>p. Some p \<in> set rs \<and>
            t = dim (join newline (filter (\<lambda>l. l \<noteq> []) (logs p) @
                  (case comment p of None \<Rightarrow> [] | Some c \<Rightarrow> if c = [] then [] else [c]))))
          \<or> t = runningUp (deploymentUrl prm) \<or> t \<in> set streamed)
         \<and> printDebug dim True q False =
             ([Log (dim (join newline (filter (\<lambda>l. l \<noteq> []) (logs q) @
                  (case comment q of None \<Rightarrow> [] | Some c \<Rightarrow> if c = [] then [] else [c]))))], True)
         \<and> sublist (lit ''------'') (traceDebug dim (squidName prm) (versionName prm) (Some q))
         \<and> sublist (squidName prm) (traceDebug dim (squidName prm) (versionName prm) (Some q))
         \<and> sublist (versionName prm) (traceDebug dim (squidName prm) (versionName prm) (Some q))
         \<and> sublist (id' q) (traceDebug dim (squidName prm) (versionName prm) (Some q))"
  using log_doUntil[of t dim streamed prm 3000 None rs] assms
  by (simp add: pollDeployPipelines_def printDebug_def traceDebug_parts flip: debugText_eq)

theorem debug_dump_text_witness:
  "Log (lit ''step 1'' @ newline @ lit ''step 2'') \<in>
     set (fst (pollDeployPipelines plain [] demoParams [Some (snapshot OK False)])) \<and>
   printDebug plain True (snapshot OK False) False =
     ([Log (lit ''step 1'' @ newline @ lit ''step 2'')], True)"
proof -
  have run: "fst (pollDeployPipelines plain [] demoParams [Some (snapshot OK False)]) =
     [GetDeployPipeline (lit ''my-squid'') (lit ''v1''), ActionStop check_mark,
      Log (lit ''step 1'' @ newline @ lit ''step 2''),
      Log (runningUp (lit ''https://x'')),
      ActionStart (lit ''Streaming logs from the squid''),
      StreamSquidLogs (lit ''org'') (lit ''my-squid'') (lit ''v1'')]"
    by (simp add: pollDeployPipelines_def tick_OK snapshot_fields demo_fields stopEvents_def
      debugEvents_def demo_debugText plain_def)
  have h: "Log (lit ''step 1'' @ newline @ lit ''step 2'') \<in>
     set (fst (pollDeployPipelines plain [] demoParams [Some (snapshot OK False)]))"
    by (simp add: run)
  from debug_dump_text[OF h, of "snapshot OK False"] h show ?thesis
    by (simp add: snapshot_fields plain_def lit_def)
qed

section \<open>Fatal errors\<close>

lemma doUntil_Thrown_decompose:
  assumes "snd (doUntil (tick dim streamed prm) pause ls rs) = Thrown msg"
  shows "\<exists>pre p rest. rs = pre @ Some p # rest \<and>
     snd (doUntil (tick dim streamed prm) pause ls pre) = Pending \<and>
     (isStage (status p) \<and> isErrorOccurred p \<and> msg = stageMessage dim prm p \<or>
      \<not> isStage (status p) \<and> status p \<noteq> OK \<and> msg = unexpectedError)"
  using assms
proof (induction rs arbitrary: ls)
  case Nil
  then show ?case by simp
next
  case (Cons r rs)
  show ?case
  proof (cases r rule: tick_cases)
    case not_found
    with Cons.prems show ?thesis by (simp add: tick_None)
  next
    case (ok p)
    with Cons.prems show ?thesis by (simp add: tick_OK)
  next
    case (other p)
    with Cons.prems have "msg = unexpectedError"
      by (simp add: tick_other)
    with other have "r # rs = [] @ Some p # rs \<and>
       snd (doUntil (tick dim streamed prm) pause ls []) = Pending \<and>
       \<not> isStage (status p) \<and> status p \<noteq> OK \<and> msg = unexpectedError"
      by simp
    then show ?thesis by blast
  next
    case (stage p)
    show ?thesis
    proof (cases "isErrorOccurred p")
      case True
      with Cons.prems stage have "msg = stageMessage dim prm p"
        by (simp add: tick_stage)
      with stage True have "r # rs = [] @ Some p # rs \<and>
         snd (doUntil (tick dim streamed prm) pause ls []) = Pending \<and>
         isStage (status p) \<and> isErrorOccurred p \<and> msg = stageMessage dim prm p"
        by simp
      then show ?thesis by blast
    next
      case False
      with Cons.prems stage
      have "snd (doUntil (tick dim streamed prm) pause (Some (status p)) rs) = Thrown msg"
        by (simp add: tick_stage)
      from Cons.IH[OF this] obtain pre q rest where
        d: "rs = pre @ Some q # rest"
           "snd (doUntil (tick dim streamed prm) pause (Some (status p)) pre) = Pending"
           "isStage (status q) \<and> isErrorOccurred q \<and> msg = stageMessage dim prm q \<or>
            \<not> isStage (status q) \<and> status q \<noteq> OK \<and> msg = unexpectedError"
        by blast
      have "r # rs = (r # pre) @ Some q # rest"
        using d(1) by simp
      moreover have "snd (doUntil (tick dim streamed prm) pause ls (r # pre)) = Pending"
        using d(2) stage False by (simp add: tick_stage)
      ultimately show ?thesis using d(3) by blast
    qed
  qed
qed

lemma fatal_tick:
  assumes "snd (pollDeployPipelines dim streamed prm pre) = Pending"
    and "isStage (status p) \<and> isErrorOccurred p \<and> msg = stageMessage dim prm p \<or>
         \<not> isStage (status p) \<and> status p \<noteq> OK \<and> msg = unexpectedError"
  shows "\<exists>evs. pollDeployPipelines dim streamed prm (pre @ Some p # rest) =
           (fst (pollDeployPipelines dim streamed prm pre) @ evs @ [Error msg], Thrown msg) \<and>
         fetches evs = 1 \<and> Sleep 3000 \<notin> set evs"
proof -
  let ?get = "GetDeployPipeline (squidName prm) (versionName prm)"
  from assms(2) show ?thesis
  proof
    assume a: "isStage (status p) \<and> isErrorOccurred p \<and> msg = stageMessage dim prm p"
    let ?evs = "[?get] @ stopEvents (seen pre) p @ [ActionStart (stageLabel (status p))] @
        debugEvents dim prm p"
    have "pollDeployPipelines dim streamed prm (pre @ Some p # rest) =
           (fst (pollDeployPipelines dim streamed prm pre) @ ?evs @ [Error msg], Thrown msg)"
      using poll_Pending_append[OF assms(1), of "Some p # rest"] a by (simp add: tick_stage)
    moreover have "fetches ?evs = 1" by simp
    moreover have "Sleep 3000 \<notin> set ?evs"
      by (simp add: stopEvents_def debugEvents_def)
    ultimately show ?thesis by blast
  next
    assume a: "\<not> isStage (status p) \<and> status p \<noteq> OK \<and> msg = unexpectedError"
    let ?evs = "[?get] @ stopEvents (seen pre) p @ debugEvents dim prm p"
    have "pollDeployPipelines dim streamed prm (pre @ Some p # rest) =
           (fst (pollDeployPipelines dim streamed prm pre) @ ?evs @ [Error msg], Thrown msg)"
      using poll_Pending_append[OF assms(1), of "Some p # rest"] a by (simp add: tick_other)
    moreover have "fetches ?evs = 1" by simp
    moreover have "Sleep 3000 \<notin> set ?evs"
      by (simp add: stopEvents_def debugEvents_def)
    ultimately show ?thesis by blast
  qed
qed

lemma stageMessage_parts:
  "sublist (lit ''------'') (stageMessage dim prm p)"
  "sublist (squidName prm) (stageMessage dim prm p)"
  "sublist (versionName prm) (stageMessage dim prm p)"
  "sublist (id' p) (stageMessage dim prm p)"
proof -
  have m: "stageMessage dim prm p =
      (cross_mark @ lit '' An error occurred while '' @ stageWord (status p) @ lit '' the squid'' @
       lit '' : '') @ traceDebug dim (squidName prm) (versionName prm) (Some p)"
    by (simp add: stageMessage_eq)
  have "sublist x (stageMessage dim prm p)"
    if "sublist x (traceDebug dim (squidName prm) (versionName prm) (Some p))" for x
    using that unfolding m by (metis sublist_append)
  then show "sublist (lit ''------'') (stageMessage dim prm p)"
    "sublist (squidName prm) (stageMessage dim prm p)"
    "sublist (versionName prm) (stageMessage dim prm p)"
    "sublist (id' p) (stageMessage dim prm p)"
    by (simp_all add: traceDebug_parts)
qed

text \<open>
  C5 as stated fails: the error of the unrecognized-status branch is the fixed generic message;
  the squid name is not in it.
\<close>
theorem fatal_error_counterexample:
  "pollDeployPipelines plain [] demoParams [Some (snapshot (lit ''FAILED'') False)] =
     ([GetDeployPipeline (lit ''my-squid'') (lit ''v1''), ActionStop check_mark,
       Log (lit ''step 1'' @ newline @ lit ''step 2''), Error unexpectedError],
      Thrown unexpectedError)
   \<and> \<not> sublist (squidName demoParams) unexpectedError"
proof -
  have other: "\<not> isStage (status (snapshot (lit ''FAILED'') False))"
    "status (snapshot (lit ''FAILED'') False) \<noteq> OK"
    by (simp_all add: isStage_def snapshot_fields CREATED_def IMAGE_BUILDING_def IMAGE_PUSHING_def
        DEPLOYING_def OK_def lit_def)
  have "\<not> sublist (squidName demoParams) unexpectedError"
    by (simp add: demo_fields unexpectedError_def cross_mark_def lit_def sublist_Cons_right)
  then show ?thesis
    by (simp add: pollDeployPipelines_def tick_other[OF other] demo_fields stopEvents_def
        debugEvents_def demo_debugText plain_def)
qed

lemma tick_Error:
  assumes "Error e \<in> set (fst (tick dim streamed prm ls r))"
  shows "fst (snd (tick dim streamed prm ls r)) = Throw e \<and>
    (\<exists>evs. fst (tick dim streamed prm ls r) = evs @ [Error e] \<and> (\<forall>x. Error x \<notin> set evs))"
proof (cases r rule: tick_cases)
  case not_found
  with assms show ?thesis by (simp add: tick_None)
next
  case (ok p)
  with assms show ?thesis
    by (auto simp: tick_OK stopEvents_def debugEvents_def split: if_splits)
next
  case (other p)
  let ?evs = "[GetDeployPipeline (squidName prm) (versionName prm)] @ stopEvents ls p @
      debugEvents dim prm p"
  have t: "tick dim streamed prm ls r = (?evs @ [Error unexpectedError], Throw unexpectedError,
      Some (status p))"
    using other by (simp add: tick_other)
  have no: "\<forall>x. Error x \<notin> set ?evs"
    by (simp add: stopEvents_def debugEvents_def)
  with assms t have "e = unexpectedError" by auto
  with t no show ?thesis by auto
next
  case (stage p)
  show ?thesis
  proof (cases "isErrorOccurred p")
    case False
    with assms stage show ?thesis
      by (auto simp: tick_stage stopEvents_def split: if_splits)
  next
    case True
    let ?evs = "[GetDeployPipeline (squidName prm) (versionName prm)] @ stopEvents ls p @
        [ActionStart (stageLabel (status p))] @ debugEvents dim prm p"
    have t: "tick dim streamed prm ls r = (?evs @ [Error (stageMessage dim prm p)],
        Throw (stageMessage dim prm p), Some (status p))"
      using stage True by (simp add: tick_stage)
    have no: "\<forall>x. Error x \<notin> set ?evs"
      by (simp add: stopEvents_def debugEvents_def)
    with assms t have "e = stageMessage dim prm p" by auto
    with t no show ?thesis by auto
  qed
qed

lemma doUntil_Error:
  assumes "Error e \<in> set (fst (doUntil (tick dim streamed prm) pause ls rs))"
  shows "snd (doUntil (tick dim streamed prm) pause ls rs) = Thrown e \<and>
    (\<exists>evs. fst (doUntil (tick dim streamed prm) pause ls rs) = evs @ [Error e] \<and>
       (\<forall>x. Error x \<notin> set evs))"
  using assms
proof (induction rs arbitrary: ls)
  case Nil
  then show ?case by simp
next
  case (Cons r rs)
  obtain evs c ls' where t: "tick dim streamed prm ls r = (evs, c, ls')"
    by (cases "tick dim streamed prm ls r") auto
  show ?case
  proof (cases c)
    case (Throw m)
    with Cons.prems t have "Error e \<in> set (fst (tick dim streamed prm ls r))"
      by simp
    from tick_Error[OF this] t Throw show ?thesis
      by simp
  next
    case (Return d)
    have clean: "Error x \<notin> set evs" for x
    proof
      assume "Error x \<in> set evs"
      with t have "Error x \<in> set (fst (tick dim streamed prm ls r))" by simp
      from tick_Error[OF this] t Return show False by simp
    qed
    show ?thesis
    proof (cases d)
      case True
      with Cons.prems t Return clean show ?thesis by simp
    next
      case False
      with Cons.prems t Return clean
      have "Error e \<in> set (fst (doUntil (tick dim streamed prm) pause ls' rs))"
        by simp
      from Cons.IH[OF this] obtain evs' where
        r: "snd (doUntil (tick dim streamed prm) pause ls' rs) = Thrown e"
           "fst (doUntil (tick dim streamed prm) pause ls' rs) = evs' @ [Error e]"
           "\<forall>x. Error x \<notin> set evs'"
        by blast
      have "fst (doUntil (tick dim streamed prm) pause ls (r # rs)) =
          (evs @ [Sleep pause] @ evs') @ [Error e]"
        using t Return False r(2) by simp
      moreover have "\<forall>x. Error x \<notin> set (evs @ [Sleep pause] @ evs')"
        using clean r(3) by simp
      moreover have "snd (doUntil (tick dim streamed prm) pause ls (r # rs)) = Thrown e"
        using t Return False r(1) by simp
      ultimately show ?thesis by blast
    qed
  qed
qed

text \<open>
  C5, amended. A tick that is a stage failure or has an unrecognized status raises a fatal
  error and halts the loop at once: the error is the last event of the run, the tick that
  raised it holds one fetch and no pause, the run ends with the error thrown to the caller, and
  the fetch results that would follow do not matter. The message of a stage failure is the stage
  wording followed by \<^verbatim>\<open>traceDebug\<close> and so carries the banner, the squid name, the
  version name and the pipeline id; the message of an unrecognized status is the fixed generic
  text alone. In any run, a call of \<^verbatim>\<open>command.error\<close> is the last event, nothing
  follows it, and its message is what the run throws; and every run that ends in a thrown error
  ends at such a tick.
\<close>
theorem fatal_error_halts:
  assumes "snd (pollDeployPipelines dim streamed prm pre) = Pending"
    and "status p \<in> {CREATED, IMAGE_BUILDING, IMAGE_PUSHING, DEPLOYING} \<and> isErrorOccurred p
         \<or> status p \<notin> {CREATED, IMAGE_BUILDING, IMAGE_PUSHING, DEPLOYING, OK}"
  shows "(\<exists>evs msg. pollDeployPipelines dim streamed prm (pre @ Some p # rest) =
              (fst (pollDeployPipelines dim streamed prm pre) @ evs @ [Error msg], Thrown msg)
            \<and> fetches evs = 1 \<and> Sleep 3000 \<notin> set evs \<and> (\<forall>x. Error x \<notin> set evs)
            \<and> (if status p \<in> {CREATED, IMAGE_BUILDING, IMAGE_PUSHING, DEPLOYING}
                then msg = cross_mark @ lit '' An error occurred while '' @ stageWord (status p) @
                       lit '' the squid'' @ lit '' : '' @
                       traceDebug dim (squidName prm) (versionName prm) (Some p)
                     \<and> sublist (lit ''------'') msg \<and> sublist (squidName prm) msg
                     \<and> sublist (versionName prm) msg \<and> sublist (id' p) msg
                else msg = unexpectedError))
      \<and> pollDeployPipelines dim streamed prm (pre @ Some p # rest) =
          pollDeployPipelines dim streamed prm (pre @ [Some p])
      \<and> (Error e \<in> set (fst (pollDeployPipelines dim streamed prm rs)) \<longrightarrow>
            snd (pollDeployPipelines dim streamed prm rs) = Thrown e
            \<and> (\<exists>evs. fst (pollDeployPipelines dim streamed prm rs) = evs @ [Error e]
                  \<and> (\<forall>x. Error x \<notin> set evs)))
      \<and> (snd (pollDeployPipelines dim streamed prm rs) = Thrown e \<longrightarrow>
            last (fst (pollDeployPipelines dim streamed prm rs)) = Error e
            \<and> (\<exists>pre' q rest'. rs = pre' @ Some q # rest'
                  \<and> snd (pollDeployPipelines dim streamed prm pre') = Pending
                  \<and> (status q \<in> {CREATED, IMAGE_BUILDING, IMAGE_PUSHING, DEPLOYING}
                        \<and> isErrorOccurred q
                      \<or> status q \<notin> {CREATED, IMAGE_BUILDING, IMAGE_PUSHING, DEPLOYING, OK})))"
proof (intro conjI impI)
  let ?msg = "if isStage (status p) then stageMessage dim prm p else unexpectedError"
  from assms(2) have kind:
    "isStage (status p) \<and> isErrorOccurred p \<and> ?msg = stageMessage dim prm p \<or>
     \<not> isStage (status p) \<and> status p \<noteq> OK \<and> ?msg = unexpectedError"
    by (auto simp: isStage_def)
  have stage_iff: "status p \<in> {CREATED, IMAGE_BUILDING, IMAGE_PUSHING, DEPLOYING} \<longleftrightarrow>
      isStage (status p)"
    by (auto simp: isStage_def)
  from fatal_tick[OF assms(1) kind, of rest] obtain evs where
    e: "pollDeployPipelines dim streamed prm (pre @ Some p # rest) =
           (fst (pollDeployPipelines dim streamed prm pre) @ evs @ [Error ?msg], Thrown ?msg)"
       "fetches evs = 1" "Sleep 3000 \<notin> set evs"
    by blast
  have pre_clean: "Error x \<notin> set (fst (pollDeployPipelines dim streamed prm pre))" for x
  proof
    assume "Error x \<in> set (fst (pollDeployPipelines dim streamed prm pre))"
    from doUntil_Error[of x dim streamed prm 3000 None pre] this assms(1) show False
      by (simp add: pollDeployPipelines_def)
  qed
  have evs_clean: "\<forall>x. Error x \<notin> set evs"
  proof (intro allI notI)
    fix x assume x: "Error x \<in> set evs"
    then have "Error x \<in> set (fst (pollDeployPipelines dim streamed prm (pre @ Some p # rest)))"
      using e(1) by simp
    from doUntil_Error[of x dim streamed prm 3000 None "pre @ Some p # rest"] this
    obtain evs' where
      "fst (pollDeployPipelines dim streamed prm (pre @ Some p # rest)) = evs' @ [Error x]"
      "\<forall>y. Error y \<notin> set evs'"
      unfolding pollDeployPipelines_def by blast
    with e(1) have "fst (pollDeployPipelines dim streamed prm pre) @ evs = evs'"
      by simp
    with \<open>\<forall>y. Error y \<notin> set evs'\<close> x show False by auto
  qed
  have content: "if status p \<in> {CREATED, IMAGE_BUILDING, IMAGE_PUSHING, DEPLOYING}
                then ?msg = cross_mark @ lit '' An error occurred while '' @ stageWord (status p) @
                       lit '' the squid'' @ lit '' : '' @
                       traceDebug dim (squidName prm) (versionName prm) (Some p)
                     \<and> sublist (lit ''------'') ?msg \<and> sublist (squidName prm) ?msg
                     \<and> sublist (versionName prm) ?msg \<and> sublist (id' p) ?msg
                else ?msg = unexpectedError"
    unfolding stage_iff using stageMessage_eq stageMessage_parts
    by simp
  from e evs_clean content
  show "\<exists>evs msg. pollDeployPipelines dim streamed prm (pre @ Some p # rest) =
              (fst (pollDeployPipelines dim streamed prm pre) @ evs @ [Error msg], Thrown msg)
            \<and> fetches evs = 1 \<and> Sleep 3000 \<notin> set evs \<and> (\<forall>x. Error x \<notin> set evs)
            \<and> (if status p \<in> {CREATED, IMAGE_BUILDING, IMAGE_PUSHING, DEPLOYING}
                then msg = cross_mark @ lit '' An error occurred while '' @ stageWord (status p) @
                       lit '' the squid'' @ lit '' : '' @
                       traceDebug dim (squidName prm) (versionName prm) (Some p)
                     \<and> sublist (lit ''------'') msg \<and> sublist (squidName prm) msg
                     \<and> sublist (versionName prm) msg \<and> sublist (id' p) msg
                else msg = unexpectedError)"
    by blast
  show "pollDeployPipelines dim streamed prm (pre @ Some p # rest) =
          pollDeployPipelines dim streamed prm (pre @ [Some p])"
    using poll_Pending_append[OF assms(1), of "Some p # rest"]
      poll_Pending_append[OF assms(1), of "[Some p]"] kind
    by (auto simp: tick_stage tick_other)
next
  assume "Error e \<in> set (fst (pollDeployPipelines dim streamed prm rs))"
  then have *: "snd (pollDeployPipelines dim streamed prm rs) = Thrown e \<and>
      (\<exists>evs. fst (pollDeployPipelines dim streamed prm rs) = evs @ [Error e] \<and>
         (\<forall>x. Error x \<notin> set evs))"
    using doUntil_Error[of e dim streamed prm 3000 None rs]
    by (simp add: pollDeployPipelines_def)
  from * show "snd (pollDeployPipelines dim streamed prm rs) = Thrown e" by simp
  from * show "\<exists>evs. fst (pollDeployPipelines dim streamed prm rs) = evs @ [Error e] \<and>
         (\<forall>x. Error x \<notin> set evs)" by simp
next
  assume thrown: "snd (pollDeployPipelines dim streamed prm rs) = Thrown e"
  from doUntil_Thrown_decompose[of dim streamed prm 3000 None rs e] thrown
  obtain pre' q rest' where
    d: "rs = pre' @ Some q # rest'"
       "snd (pollDeployPipelines dim streamed prm pre') = Pending"
       "isStage (status q) \<and> isErrorOccurred q \<and> e = stageMessage dim prm q \<or>
        \<not> isStage (status q) \<and> status q \<noteq> OK \<and> e = unexpectedError"
    unfolding pollDeployPipelines_def by blast
  from fatal_tick[OF d(2,3), of rest'] d(1) obtain evs where
    "pollDeployPipelines dim streamed prm rs =
       (fst (pollDeployPipelines dim streamed prm pre') @ evs @ [Error e], Thrown e)"
    by blast
  then show "last (fst (pollDeployPipelines dim streamed prm rs)) = Error e"
    by simp
  from d(3) have "status q \<in> {CREATED, IMAGE_BUILDING, IMAGE_PUSHING, DEPLOYING}
                        \<and> isErrorOccurred q
                      \<or> status q \<notin> {CREATED, IMAGE_BUILDING, IMAGE_PUSHING, DEPLOYING, OK}"
    by (auto simp: isStage_def)
  with d(1,2) show "\<exists>pre' q rest'. rs = pre' @ Some q # rest'
                  \<and> snd (pollDeployPipelines dim streamed prm pre') = Pending
                  \<and> (status q \<in> {CREATED, IMAGE_BUILDING, IMAGE_PUSHING, DEPLOYING}
                        \<and> isErrorOccurred q
                      \<or> status q \<notin> {CREATED, IMAGE_BUILDING, IMAGE_PUSHING, DEPLOYING, OK})"
    by blast
qed

theorem fatal_error_halts_witness:
  "snd (pollDeployPipelines plain [] demoParams [Some (snapshot CREATED False)]) = Pending
   \<and> (status (snapshot IMAGE_PUSHING True) \<in> {CREATED, IMAGE_BUILDING, IMAGE_PUSHING, DEPLOYING}
        \<and> isErrorOccurred (snapshot IMAGE_PUSHING True)
      \<or> status (snapshot IMAGE_PUSHING True) \<notin> {CREATED, IMAGE_BUILDING, IMAGE_PUSHING, DEPLOYING, OK})
   \<and> snd (pollDeployPipelines plain [] demoParams
        ([Some (snapshot CREATED False)] @ Some (snapshot IMAGE_PUSHING True) # [None])) =
       Thrown (cross_mark @ lit '' An error occurred while '' @ lit ''publishing'' @
         lit '' the squid'' @ lit '' : '' @
         traceDebug plain (lit ''my-squid'') (lit ''v1'') (Some (snapshot IMAGE_PUSHING True)))
   \<and> pollDeployPipelines plain [] demoParams
        ([Some (snapshot CREATED False)] @ Some (snapshot IMAGE_PUSHING True) # [None]) =
       pollDeployPipelines plain [] demoParams
        ([Some (snapshot CREATED False)] @ [Some (snapshot IMAGE_PUSHING True)])"
proof -
  have h1: "snd (pollDeployPipelines plain [] demoParams [Some (snapshot CREATED False)]) = Pending"
    by (simp add: demo_pending)
  have h2: "status (snapshot IMAGE_PUSHING True) \<in> {CREATED, IMAGE_BUILDING, IMAGE_PUSHING, DEPLOYING}
        \<and> isErrorOccurred (snapshot IMAGE_PUSHING True)
      \<or> status (snapshot IMAGE_PUSHING True) \<notin> {CREATED, IMAGE_BUILDING, IMAGE_PUSHING, DEPLOYING, OK}"
    by (simp add: snapshot_fields)
  have w: "stageWord (status (snapshot IMAGE_PUSHING True)) = lit ''publishing''"
    by (simp add: stageWord_def snapshot_fields)
  have s: "status (snapshot IMAGE_PUSHING True) \<in> {CREATED, IMAGE_BUILDING, IMAGE_PUSHING, DEPLOYING}"
    by (simp add: snapshot_fields)
  note halts = fatal_error_halts[OF h1 h2, of "[None]"]
  from halts obtain evs msg where
    run: "pollDeployPipelines plain [] demoParams
          ([Some (snapshot CREATED False)] @ Some (snapshot IMAGE_PUSHING True) # [None]) =
        (fst (pollDeployPipelines plain [] demoParams [Some (snapshot CREATED False)]) @ evs @
           [Error msg], Thrown msg)" and
    content: "if status (snapshot IMAGE_PUSHING True) \<in> {CREATED, IMAGE_BUILDING, IMAGE_PUSHING, DEPLOYING}
       then msg = cross_mark @ lit '' An error occurred while '' @
          stageWord (status (snapshot IMAGE_PUSHING True)) @ lit '' the squid'' @ lit '' : '' @
          traceDebug plain (squidName demoParams) (versionName demoParams)
            (Some (snapshot IMAGE_PUSHING True))
          \<and> sublist (lit ''------'') msg \<and> sublist (squidName demoParams) msg
          \<and> sublist (versionName demoParams) msg \<and> sublist (id' (snapshot IMAGE_PUSHING True)) msg
       else msg = unexpectedError"
    by blast
  from content have r2: "msg = cross_mark @ lit '' An error occurred while '' @
          stageWord (status (snapshot IMAGE_PUSHING True)) @ lit '' the squid'' @ lit '' : '' @
          traceDebug plain (squidName demoParams) (versionName demoParams)
            (Some (snapshot IMAGE_PUSHING True))"
    by (simp only: s if_True)
  from halts have r3: "pollDeployPipelines plain [] demoParams
          ([Some (snapshot CREATED False)] @ Some (snapshot IMAGE_PUSHING True) # [None]) =
        pollDeployPipelines plain [] demoParams
          ([Some (snapshot CREATED False)] @ [Some (snapshot IMAGE_PUSHING True)])"
    by (rule conjunct2[THEN conjunct1])
  from run r2 have "snd (pollDeployPipelines plain [] demoParams
        ([Some (snapshot CREATED False)] @ Some (snapshot IMAGE_PUSHING True) # [None])) =
       Thrown (cross_mark @ lit '' An error occurred while '' @ lit ''publishing'' @
         lit '' the squid'' @ lit '' : '' @
         traceDebug plain (lit ''my-squid'') (lit ''v1'') (Some (snapshot IMAGE_PUSHING True)))"
    by (simp add: w demo_fields)
  with h1 h2 r3 show ?thesis
    by blast
qed

section \<open>Unrecognized status\<close>

lemma sublist_unexpected:
  "sublist (lit ''An unexpected error occurred'') unexpectedError"
  "sublist (lit ''Please report to Discord https://discord.gg/KRvRcBdhEE or SquidDevs https://t.me/HydraDevs'') unexpectedError"
proof -
  have "unexpectedError = (cross_mark @ lit '' '') @ lit ''An unexpected error occurred'' @
      lit ''. Please report to Discord https://discord.gg/KRvRcBdhEE or SquidDevs https://t.me/HydraDevs''"
    by (simp add: unexpectedError_def lit_def)
  then show "sublist (lit ''An unexpected error occurred'') unexpectedError"
    unfolding sublist_def by blast
  have "unexpectedError = (cross_mark @ lit '' An unexpected error occurred. '') @
      lit ''Please report to Discord https://discord.gg/KRvRcBdhEE or SquidDevs https://t.me/HydraDevs'' @ []"
    by (simp add: unexpectedError_def lit_def)
  then show "sublist (lit ''Please report to Discord https://discord.gg/KRvRcBdhEE or SquidDevs https://t.me/HydraDevs'') unexpectedError"
    unfolding sublist_def by blast
qed

text \<open>
  C6 as stated fails: on a snapshot with the unrecognized status \<^verbatim>\<open>DEPLOY_ERROR\<close> and
  \<^verbatim>\<open>verbose\<close> left at its default, the one text logged is the two non-empty log lines. The
  debug context is not dumped: neither the banner nor the squid name, the version name or the
  pipeline id is in the logged text, and the error that follows is the fixed generic message.
\<close>
theorem unrecognized_status_counterexample:
  "pollDeployPipelines plain [] demoParams [Some (snapshot (lit ''DEPLOY_ERROR'') False)] =
     ([GetDeployPipeline (lit ''my-squid'') (lit ''v1''), ActionStop check_mark,
       Log (lit ''step 1'' @ newline @ lit ''step 2''), Error unexpectedError],
      Thrown unexpectedError)
   \<and> \<not> sublist (lit ''------'') (lit ''step 1'' @ newline @ lit ''step 2'')
   \<and> \<not> sublist (squidName demoParams) (lit ''step 1'' @ newline @ lit ''step 2'')
   \<and> \<not> sublist (versionName demoParams) (lit ''step 1'' @ newline @ lit ''step 2'')
   \<and> \<not> sublist (id' (snapshot (lit ''DEPLOY_ERROR'') False)) (lit ''step 1'' @ newline @ lit ''step 2'')
   \<and> \<not> sublist (lit ''------'') unexpectedError
   \<and> \<not> sublist (squidName demoParams) unexpectedError"
proof -
  have other: "\<not> isStage (status (snapshot (lit ''DEPLOY_ERROR'') False))"
    "status (snapshot (lit ''DEPLOY_ERROR'') False) \<noteq> OK"
    by (simp_all add: isStage_def snapshot_fields CREATED_def IMAGE_BUILDING_def IMAGE_PUSHING_def
        DEPLOYING_def OK_def lit_def)
  have absent:
    "\<not> sublist (lit ''------'') (lit ''step 1'' @ newline @ lit ''step 2'')"
    "\<not> sublist (squidName demoParams) (lit ''step 1'' @ newline @ lit ''step 2'')"
    "\<not> sublist (versionName demoParams) (lit ''step 1'' @ newline @ lit ''step 2'')"
    "\<not> sublist (id' (snapshot (lit ''DEPLOY_ERROR'') False)) (lit ''step 1'' @ newline @ lit ''step 2'')"
    by (simp_all add: demo_fields snapshot_fields lit_def newline_def sublist_Cons_right)
  have absent': "\<not> sublist (lit ''------'') unexpectedError"
    "\<not> sublist (squidName demoParams) unexpectedError"
    by (simp_all add: demo_fields unexpectedError_def cross_mark_def lit_def sublist_Cons_right)
  have "pollDeployPipelines plain [] demoParams [Some (snapshot (lit ''DEPLOY_ERROR'') False)] =
     ([GetDeployPipeline (lit ''my-squid'') (lit ''v1''), ActionStop check_mark,
       Log (lit ''step 1'' @ newline @ lit ''step 2''), Error unexpectedError],
      Thrown unexpectedError)"
    by (simp add: pollDeployPipelines_def tick_other[OF other] demo_fields stopEvents_def
        debugEvents_def demo_debugText plain_def)
  with absent absent' show ?thesis
    by blast
qed

text \<open>
  C6, amended. On the tick whose snapshot has a status outside the five recognized values,
  whatever ticks went before and whatever fetch results would follow: the stop indicator is
  signalled; unless \<^verbatim>\<open>verbose\<close> is false, one text is logged, which is \<^verbatim>\<open>dim\<close> applied to
  the snapshot's non-empty log lines followed by the comment, if there is a non-empty one,
  joined by newline; the debug context of banner, squid name, version name and pipeline id is
  not emitted on this tick, neither logged nor put into the error; and \<^verbatim>\<open>command.error\<close>
  throws the fixed generic message, which says that an unexpected error occurred and where to
  report it. The error is the last event of the run and the fetch of this tick is the last
  fetch.
\<close>
theorem unrecognized_status_fatal:
  assumes "snd (pollDeployPipelines dim streamed prm pre) = Pending"
    and "status p \<notin> {CREATED, IMAGE_BUILDING, IMAGE_PUSHING, DEPLOYING, OK}"
  shows "pollDeployPipelines dim streamed prm (pre @ Some p # rest) =
           (fst (pollDeployPipelines dim streamed prm pre) @
              [GetDeployPipeline (squidName prm) (versionName prm), ActionStop check_mark] @
              (if verbose prm = Some False then []
               else [Log (dim (join newline (filter (\<lambda>l. l \<noteq> []) (logs p) @
                  (case comment p of None \<Rightarrow> [] | Some c \<Rightarrow> if c = [] then [] else [c]))))]) @
              [Error unexpectedError],
            Thrown unexpectedError)
         \<and> fetches (fst (pollDeployPipelines dim streamed prm (pre @ Some p # rest))) = Suc (length pre)
         \<and> unexpectedError = cross_mark @
             lit '' An unexpected error occurred. Please report to Discord https://discord.gg/KRvRcBdhEE or SquidDevs https://t.me/HydraDevs''
         \<and> sublist (lit ''An unexpected error occurred'') unexpectedError
         \<and> sublist (lit ''Please report to Discord https://discord.gg/KRvRcBdhEE or SquidDevs https://t.me/HydraDevs'') unexpectedError"
proof -
  from assms(2) have other: "\<not> isStage (status p)" "status p \<noteq> OK"
    by (auto simp: isStage_def)
  from seen_poll_Pending[OF assms(1)] other(1) have "seen pre \<noteq> Some (status p)"
    by auto
  then have stop: "stopEvents (seen pre) p = [ActionStop check_mark]"
    by (simp add: stopEvents_def)
  have run: "pollDeployPipelines dim streamed prm (pre @ Some p # rest) =
           (fst (pollDeployPipelines dim streamed prm pre) @
              [GetDeployPipeline (squidName prm) (versionName prm), ActionStop check_mark] @
              (if verbose prm = Some False then []
               else [Log (dim (join newline (filter (\<lambda>l. l \<noteq> []) (logs p) @
                  (case comment p of None \<Rightarrow> [] | Some c \<Rightarrow> if c = [] then [] else [c]))))]) @
              [Error unexpectedError],
            Thrown unexpectedError)"
    using poll_Pending_append[OF assms(1), of "Some p # rest"]
    by (simp add: tick_other[OF other] stop debugEvents_def flip: debugText_eq)
  then have count: "fetches (fst (pollDeployPipelines dim streamed prm (pre @ Some p # rest))) =
      Suc (length pre)"
    using poll_Pending_fetches[OF assms(1)] by simp
  from run count sublist_unexpected unexpectedError_def show ?thesis
    by blast
qed

theorem unrecognized_status_fatal_witness:
  "snd (pollDeployPipelines plain [] demoParams [Some (snapshot CREATED False)]) = Pending \<and>
   status (snapshot (lit ''FAILED'') False) \<notin> {CREATED, IMAGE_BUILDING, IMAGE_PUSHING, DEPLOYING, OK} \<and>
   pollDeployPipelines plain [] demoParams
     ([Some (snapshot CREATED False)] @ Some (snapshot (lit ''FAILED'') False) # [Some (snapshot OK False)]) =
     ([GetDeployPipeline (lit ''my-squid'') (lit ''v1''), ActionStop check_mark,
       ActionStart (clock @ lit '' Preparing your squid''), Sleep 3000,
       GetDeployPipeline (lit ''my-squid'') (lit ''v1''), ActionStop check_mark,
       Log (lit ''step 1'' @ newline @ lit ''step 2''),
       Error unexpectedError], Thrown unexpectedError)"
proof -
  have h1: "snd (pollDeployPipelines plain [] demoParams [Some (snapshot CREATED False)]) = Pending"
    by (simp add: demo_pending)
  have h2: "status (snapshot (lit ''FAILED'') False) \<notin> {CREATED, IMAGE_BUILDING, IMAGE_PUSHING, DEPLOYING, OK}"
    by (simp add: snapshot_fields CREATED_def IMAGE_BUILDING_def IMAGE_PUSHING_def DEPLOYING_def
        OK_def lit_def)
  have d: "join newline (filter (\<lambda>l. l \<noteq> []) (logs (snapshot (lit ''FAILED'') False)) @
      (case comment (snapshot (lit ''FAILED'') False) of None \<Rightarrow> []
       | Some c \<Rightarrow> if c = [] then [] else [c])) = lit ''step 1'' @ newline @ lit ''step 2''"
    by (simp add: snapshot_fields lit_def)
  from unrecognized_status_fatal[OF h1 h2, of "[Some (snapshot OK False)]"] h1 h2 show ?thesis
    by (simp add: demo_pending demo_fields d plain_def)
qed

section \<open>Runs that only move forward\<close>

lemma rank_stage: "isStage s \<Longrightarrow> rank s < 4"
  by (auto simp: isStage_def rank_def status_distinct)

lemma rank_OK: "rank OK = 4"
  by (simp add: rank_def status_distinct)

lemma rank_inj:
  assumes "isStage a \<or> a = OK" "isStage b \<or> b = OK" "rank a = rank b"
  shows "a = b"
  using assms by (auto simp: isStage_def rank_def status_distinct split: if_splits)

lemma stageLabel_inj:
  assumes "isStage a" "isStage b" "stageLabel a = stageLabel b"
  shows "a = b"
  using assms by (auto simp: isStage_def stageLabel_def status_distinct lit_def split: if_splits)

lemma stageLabel_not_streaming:
  "stageLabel s \<noteq> lit ''Streaming logs from the squid''"
  by (simp add: stageLabel_def clock_def lit_def)

lemma count_stop [simp]:
  "count_list (stopEvents ls p) (ActionStop check_mark) = (if ls = Some (status p) then 0 else 1)"
  "count_list (stopEvents ls p) (ActionStart x) = 0"
  "count_list (stopEvents ls p) (StreamSquidLogs a b c) = 0"
  by (auto simp: stopEvents_def)

lemma count_debug [simp]:
  "count_list (debugEvents dim prm p) (ActionStop x) = 0"
  "count_list (debugEvents dim prm p) (ActionStart x) = 0"
  "count_list (debugEvents dim prm p) (StreamSquidLogs a b c) = 0"
  by (simp_all add: debugEvents_def)

lemma count_map_Log [simp]:
  "count_list (map Log xs) (ActionStop x) = 0"
  "count_list (map Log xs) (ActionStart x) = 0"
  "count_list (map Log xs) (StreamSquidLogs a b c) = 0"
  by (induction xs) simp_all

text \<open>Outcome, fetches and the call of the streamer need no order on the statuses.\<close>

lemma clean_run:
  assumes "\<forall>p \<in> set snaps. (isStage (status p) \<or> status p = OK) \<and> \<not> isErrorOccurred p"
  shows "snd (doUntil (tick dim streamed prm) pause ls (map Some snaps)) =
           (if OK \<in> set (map status snaps) then Returned else Pending)
    \<and> fetches (fst (doUntil (tick dim streamed prm) pause ls (map Some snaps))) =
           length (takeWhile (\<lambda>p. status p \<noteq> OK) snaps) +
           (if OK \<in> set (map status snaps) then 1 else 0)
    \<and> count_list (fst (doUntil (tick dim streamed prm) pause ls (map Some snaps)))
           (StreamSquidLogs (orgCode prm) (squidName prm) (versionName prm)) =
           (if OK \<in> set (map status snaps) then 1 else 0)
    \<and> (OK \<in> set (map status snaps) \<longrightarrow>
          (\<exists>evs. fst (doUntil (tick dim streamed prm) pause ls (map Some snaps)) =
             evs @ [StreamSquidLogs (orgCode prm) (squidName prm) (versionName prm)] @
             map Log streamed))"
  using assms
proof (induction snaps arbitrary: ls)
  case Nil
  then show ?case by simp
next
  case (Cons p snaps)
  show ?case
  proof (cases "status p = OK")
    case True
    have "fst (doUntil (tick dim streamed prm) pause ls (map Some (p # snaps))) =
        ([GetDeployPipeline (squidName prm) (versionName prm)] @ stopEvents ls p @
         debugEvents dim prm p @ [Log (runningUp (deploymentUrl prm)),
         ActionStart (lit ''Streaming logs from the squid'')]) @
        [StreamSquidLogs (orgCode prm) (squidName prm) (versionName prm)] @ map Log streamed"
      using True by (simp add: tick_OK)
    then have "\<exists>evs. fst (doUntil (tick dim streamed prm) pause ls (map Some (p # snaps))) =
        evs @ [StreamSquidLogs (orgCode prm) (squidName prm) (versionName prm)] @ map Log streamed"
      by blast
    then show ?thesis
      using True by (simp add: tick_OK)
  next
    case False
    with Cons.prems have stage: "isStage (status p)" "\<not> isErrorOccurred p"
      by auto
    have rest: "\<forall>p \<in> set snaps. (isStage (status p) \<or> status p = OK) \<and> \<not> isErrorOccurred p"
      using Cons.prems by simp
    note IH = Cons.IH[OF rest, of "Some (status p)"]
    have tail: "OK \<in> set (map status snaps) \<Longrightarrow>
       \<exists>evs. fst (doUntil (tick dim streamed prm) pause ls (map Some (p # snaps))) =
         evs @ [StreamSquidLogs (orgCode prm) (squidName prm) (versionName prm)] @ map Log streamed"
    proof -
      assume "OK \<in> set (map status snaps)"
      with IH obtain evs where
        "fst (doUntil (tick dim streamed prm) pause (Some (status p)) (map Some snaps)) =
           evs @ [StreamSquidLogs (orgCode prm) (squidName prm) (versionName prm)] @ map Log streamed"
        by blast
      then have "fst (doUntil (tick dim streamed prm) pause ls (map Some (p # snaps))) =
         ([GetDeployPipeline (squidName prm) (versionName prm)] @ stopEvents ls p @
          [ActionStart (stageLabel (status p)), Sleep pause] @ evs) @
         [StreamSquidLogs (orgCode prm) (squidName prm) (versionName prm)] @ map Log streamed"
        using stage by (simp add: tick_stage)
      then show ?thesis by blast
    qed
    show ?thesis
      using IH stage False tail by (simp add: tick_stage)
  qed
qed

text \<open>
  The stop indicator: one for each status that is new. \<open>ls\<close> is a status no later than
  every status still to come.
\<close>

lemma forward_stops:
  assumes "\<forall>p \<in> set snaps. (isStage (status p) \<or> status p = OK) \<and> \<not> isErrorOccurred p"
    and "sorted (map (\<lambda>p. rank (status p)) snaps)"
    and "\<forall>l. ls = Some l \<longrightarrow> (isStage l \<or> l = OK) \<and> (\<forall>p \<in> set snaps. rank l \<le> rank (status p))"
  shows "count_list (fst (doUntil (tick dim streamed prm) pause ls (map Some snaps)))
           (ActionStop check_mark) = card (status ` set snaps - set_option ls)"
  using assms
proof (induction snaps arbitrary: ls)
  case Nil
  then show ?case by simp
next
  case (Cons p snaps)
  let ?S = "status ` set snaps"
  have rec: "isStage (status p) \<or> status p = OK" and noerr: "\<not> isErrorOccurred p"
    using Cons.prems(1) by auto
  have above: "\<forall>q \<in> set snaps. rank (status p) \<le> rank (status q)"
    using Cons.prems(2) by simp
  have all_rec: "\<forall>q \<in> set snaps. isStage (status q) \<or> status q = OK"
    using Cons.prems(1) by simp
  have new: "card (insert (status p) ?S - set_option ls) =
      (if ls = Some (status p) then 0 else 1) + card (?S - {status p})"
  proof (cases ls)
    case None
    then show ?thesis
      by (simp add: card.insert_remove)
  next
    case (Some l)
    show ?thesis
    proof (cases "l = status p")
      case True
      with Some show ?thesis by simp
    next
      case False
      from Cons.prems(3) Some have l: "isStage l \<or> l = OK" "rank l \<le> rank (status p)"
        by auto
      with rec False have "rank l < rank (status p)"
        using rank_inj[of l "status p"] by fastforce
      with above have "l \<notin> ?S" by fastforce
      with False Some show ?thesis
        by (simp add: card.insert_remove)
    qed
  qed
  show ?case
  proof (cases "status p = OK")
    case True
    have "?S - {OK} = {}"
    proof -
      have "status q = OK" if "q \<in> set snaps" for q
      proof -
        from above that True have "4 \<le> rank (status q)" by (simp add: rank_OK)
        with all_rec that rank_stage[of "status q"] show ?thesis by fastforce
      qed
      then show ?thesis by auto
    qed
    with new True show ?thesis
      by (simp add: tick_OK)
  next
    case False
    with rec have stage: "isStage (status p)" by simp
    have "count_list (fst (doUntil (tick dim streamed prm) pause (Some (status p)) (map Some snaps)))
           (ActionStop check_mark) = card (?S - set_option (Some (status p)))"
      using Cons.prems(1,2) rec above by (intro Cons.IH) simp_all
    with new stage noerr show ?thesis
      by (simp add: tick_stage)
  qed
qed

text \<open>The spinner start of a stage: one for each tick with that status.\<close>

lemma forward_starts:
  assumes "\<forall>p \<in> set snaps. (isStage (status p) \<or> status p = OK) \<and> \<not> isErrorOccurred p"
    and "sorted (map (\<lambda>p. rank (status p)) snaps)"
    and "isStage s"
  shows "count_list (fst (doUntil (tick dim streamed prm) pause ls (map Some snaps)))
           (ActionStart (stageLabel s)) = length (filter (\<lambda>p. status p = s) snaps)"
  using assms(1,2)
proof (induction snaps arbitrary: ls)
  case Nil
  then show ?case by simp
next
  case (Cons p snaps)
  have rec: "isStage (status p) \<or> status p = OK" and noerr: "\<not> isErrorOccurred p"
    using Cons.prems(1) by auto
  have above: "\<forall>q \<in> set snaps. rank (status p) \<le> rank (status q)"
    using Cons.prems(2) by simp
  have all_rec: "\<forall>q \<in> set snaps. isStage (status q) \<or> status q = OK"
    using Cons.prems(1) by simp
  have s_not_OK: "s \<noteq> OK"
    using assms(3) by (auto simp: isStage_def status_distinct)
  show ?case
  proof (cases "status p = OK")
    case True
    have "status q = OK" if "q \<in> set snaps" for q
    proof -
      from above that True have "4 \<le> rank (status q)" by (simp add: rank_OK)
      with all_rec that rank_stage[of "status q"] show ?thesis by fastforce
    qed
    then have "filter (\<lambda>p. status p = s) snaps = []"
      using s_not_OK by (auto simp: filter_empty_conv)
    then show ?thesis
      using True s_not_OK stageLabel_not_streaming[of s] by (auto simp: tick_OK)
  next
    case False
    with rec have stage: "isStage (status p)" by simp
    have IH: "count_list (fst (doUntil (tick dim streamed prm) pause (Some (status p)) (map Some snaps)))
           (ActionStart (stageLabel s)) = length (filter (\<lambda>p. status p = s) snaps)"
      using Cons.prems by (intro Cons.IH) simp_all
    have "stageLabel (status p) = stageLabel s \<longleftrightarrow> status p = s"
      using stageLabel_inj[OF stage assms(3)] by auto
    with IH stage noerr show ?thesis
      by (cases "status p = s") (simp_all add: tick_stage)
  qed
qed

text \<open>
  C1 as stated fails: the statuses move forward and no snapshot has the error flag, yet the
  single transition into \<^verbatim>\<open>CREATED\<close> is announced on both ticks that report it.
\<close>
theorem forward_run_counterexample:
  "forward [snapshot CREATED False, snapshot CREATED False, snapshot OK False]
   \<and> fst (pollDeployPipelines plain [] demoParams
       (map Some [snapshot CREATED False, snapshot CREATED False, snapshot OK False])) =
     [GetDeployPipeline (lit ''my-squid'') (lit ''v1''), ActionStop check_mark,
      ActionStart (clock @ lit '' Preparing your squid''), Sleep 3000,
      GetDeployPipeline (lit ''my-squid'') (lit ''v1''),
      ActionStart (clock @ lit '' Preparing your squid''), Sleep 3000,
      GetDeployPipeline (lit ''my-squid'') (lit ''v1''), ActionStop check_mark,
      Log (lit ''step 1'' @ newline @ lit ''step 2''),
      Log (runningUp (lit ''https://x'')),
      ActionStart (lit ''Streaming logs from the squid''),
      StreamSquidLogs (lit ''org'') (lit ''my-squid'') (lit ''v1'')]"
proof -
  have "forward [snapshot CREATED False, snapshot CREATED False, snapshot OK False]"
    by (simp add: forward_def isStage_def snapshot_fields rank_def status_distinct)
  then show ?thesis
    by (simp add: pollDeployPipelines_def tick_stage tick_OK isStage_def snapshot_fields
        demo_fields stopEvents_def debugEvents_def stageLabel_def demo_debugText plain_def
        status_distinct)
qed

text \<open>
  C1, amended. For every sequence of snapshots whose status only moves forward through
  \<^verbatim>\<open>CREATED\<close>, \<^verbatim>\<open>IMAGE_BUILDING\<close>, \<^verbatim>\<open>IMAGE_PUSHING\<close>, \<^verbatim>\<open>DEPLOYING\<close>, \<^verbatim>\<open>OK\<close>
  with the error flag never set: the run never ends in a fatal error; it returns exactly when
  an \<^verbatim>\<open>OK\<close> snapshot is among them, and is still polling otherwise; each status transition
  is signalled once by the stop indicator, so the stop indicator is emitted as many times as
  there are distinct statuses; the spinner start of a stage is emitted on every tick that
  reports that stage, not once for the transition; the log streamer is invoked once, on the
  tick of the first \<^verbatim>\<open>OK\<close> snapshot, as the last call of the run before the streamed lines
  are forwarded.
\<close>
theorem forward_run:
  assumes "forward snaps"
  shows "snd (pollDeployPipelines dim streamed prm (map Some snaps)) =
           (if OK \<in> set (map status snaps) then Returned else Pending)
    \<and> count_list (fst (pollDeployPipelines dim streamed prm (map Some snaps)))
           (ActionStop check_mark) = length (remdups (map status snaps))
    \<and> (\<forall>s \<in> {CREATED, IMAGE_BUILDING, IMAGE_PUSHING, DEPLOYING}.
          count_list (fst (pollDeployPipelines dim streamed prm (map Some snaps)))
            (ActionStart (stageLabel s)) = length (filter (\<lambda>p. status p = s) snaps))
    \<and> count_list (fst (pollDeployPipelines dim streamed prm (map Some snaps)))
           (StreamSquidLogs (orgCode prm) (squidName prm) (versionName prm)) =
           (if OK \<in> set (map status snaps) then 1 else 0)
    \<and> fetches (fst (pollDeployPipelines dim streamed prm (map Some snaps))) =
           length (takeWhile (\<lambda>p. status p \<noteq> OK) snaps) +
           (if OK \<in> set (map status snaps) then 1 else 0)
    \<and> (OK \<in> set (map status snaps) \<longrightarrow>
          (\<exists>evs. fst (pollDeployPipelines dim streamed prm (map Some snaps)) =
             evs @ [StreamSquidLogs (orgCode prm) (squidName prm) (versionName prm)] @
             map Log streamed))"
proof -
  from assms have
    clean: "\<forall>p \<in> set snaps. (isStage (status p) \<or> status p = OK) \<and> \<not> isErrorOccurred p"
    and ordered: "sorted (map (\<lambda>p. rank (status p)) snaps)"
    by (simp_all add: forward_def)
  have stops: "count_list (fst (pollDeployPipelines dim streamed prm (map Some snaps)))
           (ActionStop check_mark) = length (remdups (map status snaps))"
    using forward_stops[OF clean ordered, of None dim streamed prm 3000]
    by (simp add: pollDeployPipelines_def length_remdups_card_conv)
  have starts: "\<forall>s \<in> {CREATED, IMAGE_BUILDING, IMAGE_PUSHING, DEPLOYING}.
          count_list (fst (pollDeployPipelines dim streamed prm (map Some snaps)))
            (ActionStart (stageLabel s)) = length (filter (\<lambda>p. status p = s) snaps)"
    using forward_starts[OF clean ordered, of _ dim streamed prm 3000 None]
    by (simp add: pollDeployPipelines_def isStage_def)
  from clean_run[OF clean, of dim streamed prm 3000 None] stops starts show ?thesis
    unfolding pollDeployPipelines_def by blast
qed

theorem forward_run_witness:
  "forward [snapshot CREATED False, snapshot CREATED False, snapshot IMAGE_BUILDING False,
            snapshot OK False]
   \<and> snd (pollDeployPipelines plain [] demoParams
       (map Some [snapshot CREATED False, snapshot CREATED False, snapshot IMAGE_BUILDING False,
                  snapshot OK False])) = Returned
   \<and> count_list (fst (pollDeployPipelines plain [] demoParams
       (map Some [snapshot CREATED False, snapshot CREATED False, snapshot IMAGE_BUILDING False,
                  snapshot OK False]))) (ActionStop check_mark) = 3
   \<and> count_list (fst (pollDeployPipelines plain [] demoParams
       (map Some [snapshot CREATED False, snapshot CREATED False, snapshot IMAGE_BUILDING False,
                  snapshot OK False]))) (ActionStart (stageLabel CREATED)) = 2
   \<and> fetches (fst (pollDeployPipelines plain [] demoParams
       (map Some [snapshot CREATED False, snapshot CREATED False, snapshot IMAGE_BUILDING False,
                  snapshot OK False]))) = 4"
proof -
  have h: "forward [snapshot CREATED False, snapshot CREATED False, snapshot IMAGE_BUILDING False,
            snapshot OK False]"
    by (simp add: forward_def isStage_def snapshot_fields rank_def status_distinct)
  from forward_run[OF h, of plain "[]" demoParams] h show ?thesis
    by (simp add: snapshot_fields status_distinct)
qed

section \<open>Parsing name and version\<close>

text \<open>The derivative matcher decides membership in the language of the pattern.\<close>

lemma nullable_lang: "nullable r \<longleftrightarrow> [] \<in> lang r"
  by (induction r) (auto intro: star.intros)

lemma star_Cons:
  "c # w \<in> star A \<longleftrightarrow> (\<exists>u v. w = u @ v \<and> c # u \<in> A \<and> v \<in> star A)"
proof
  assume "c # w \<in> star A"
  then show "\<exists>u v. w = u @ v \<and> c # u \<in> A \<and> v \<in> star A"
  proof (induction "c # w" arbitrary: w rule: star.induct)
    case (star_step u v)
    show ?case
    proof (cases u)
      case Nil
      with star_step show ?thesis by simp
    next
      case (Cons d u')
      with star_step.hyps have "w = u' @ v" "c # u' \<in> A" "v \<in> star A"
        by auto
      then show ?thesis by blast
    qed
  qed
next
  assume "\<exists>u v. w = u @ v \<and> c # u \<in> A \<and> v \<in> star A"
  then obtain u v where "w = u @ v" "c # u \<in> A" "v \<in> star A"
    by blast
  then show "c # w \<in> star A"
    using star.star_step[of "c # u" A v] by simp
qed

lemma deriv_lang: "w \<in> lang (deriv c r) \<longleftrightarrow> c # w \<in> lang r"
proof (induction r arbitrary: w)
  case Zero
  show ?case by simp
next
  case One
  show ?case by simp
next
  case (Atom P)
  show ?case by simp
next
  case (Alt r s)
  then show ?case by simp
next
  case (Seq r s)
  show ?case
  proof
    assume a: "w \<in> lang (deriv c (Seq r s))"
    have "(\<exists>u v. w = u @ v \<and> c # u \<in> lang r \<and> v \<in> lang s) \<or> (nullable r \<and> c # w \<in> lang s)"
    proof (cases "nullable r")
      case True
      with a have "w \<in> lang (Seq (deriv c r) s) \<or> w \<in> lang (deriv c s)" by simp
      with Seq True show ?thesis by fastforce
    next
      case False
      with a have "w \<in> lang (Seq (deriv c r) s)" by simp
      with Seq show ?thesis by fastforce
    qed
    then show "c # w \<in> lang (Seq r s)"
    proof
      assume "\<exists>u v. w = u @ v \<and> c # u \<in> lang r \<and> v \<in> lang s"
      then obtain u v where 1: "w = u @ v" "c # u \<in> lang r" "v \<in> lang s" by blast
      then have "c # w = (c # u) @ v" by simp
      with 1 have "\<exists>x y. c # w = x @ y \<and> x \<in> lang r \<and> y \<in> lang s" by blast
      then show ?thesis by simp
    next
      assume 2: "nullable r \<and> c # w \<in> lang s"
      then have "c # w = [] @ (c # w)" "[] \<in> lang r"
        by (simp_all add: nullable_lang)
      with 2 have "\<exists>x y. c # w = x @ y \<and> x \<in> lang r \<and> y \<in> lang s" by blast
      then show ?thesis by simp
    qed
  next
    assume "c # w \<in> lang (Seq r s)"
    then obtain u v where uv: "c # w = u @ v" "u \<in> lang r" "v \<in> lang s"
      by auto
    show "w \<in> lang (deriv c (Seq r s))"
    proof (cases u)
      case Nil
      with uv have "nullable r" "w \<in> lang (deriv c s)"
        using Seq by (simp_all add: nullable_lang)
      then show ?thesis by simp
    next
      case (Cons d u')
      with uv have "w = u' @ v" "u' \<in> lang (deriv c r)"
        using Seq by auto
      with uv(3) have "\<exists>x y. w = x @ y \<and> x \<in> lang (deriv c r) \<and> y \<in> lang s" by blast
      then show ?thesis by simp
    qed
  qed
next
  case (Star r)
  have "w \<in> lang (deriv c (Star r)) \<longleftrightarrow>
      (\<exists>u v. w = u @ v \<and> u \<in> lang (deriv c r) \<and> v \<in> star (lang r))"
    by simp
  also have "\<dots> \<longleftrightarrow> (\<exists>u v. w = u @ v \<and> c # u \<in> lang r \<and> v \<in> star (lang r))"
    using Star by simp
  also have "\<dots> \<longleftrightarrow> c # w \<in> lang (Star r)"
    by (simp add: star_Cons)
  finally show ?case .
qed

lemma accepts_lang: "accepts r w \<longleftrightarrow> w \<in> lang r"
  by (induction w arbitrary: r) (simp_all add: nullable_lang deriv_lang)

lemma matchExists_lang: "matchExists r s \<longleftrightarrow> (\<exists>w. sublist w s \<and> w \<in> lang r)"
  by (auto simp: matchExists_def accepts_lang)

lemma star_atoms: "w \<in> star {[c] | c. P c} \<longleftrightarrow> (\<forall>c \<in> set w. P c)"
proof
  assume "w \<in> star {[c] | c. P c}"
  then show "\<forall>c \<in> set w. P c"
    by (induction rule: star.induct) auto
next
  assume "\<forall>c \<in> set w. P c"
  then show "w \<in> star {[c] | c. P c}"
  proof (induction w)
    case Nil
    show ?case by (rule star.star_empty)
  next
    case (Cons c w)
    then have "[c] \<in> {[c] | c. P c}" "w \<in> star {[c] | c. P c}"
      by simp_all
    then have "[c] @ w \<in> star {[c] | c. P c}"
      by (rule star.star_step)
    then show ?case by simp
  qed
qed

lemma lang_oneOrMore_atom:
  "w \<in> lang (oneOrMore (Atom P)) \<longleftrightarrow> w \<noteq> [] \<and> (\<forall>c \<in> set w. P c)"
proof
  assume "w \<in> lang (oneOrMore (Atom P))"
  then obtain c v where "w = [c] @ v" "P c" "v \<in> star {[c] | c. P c}"
    by (auto simp: oneOrMore_def)
  then show "w \<noteq> [] \<and> (\<forall>c \<in> set w. P c)"
    by (simp add: star_atoms)
next
  assume a: "w \<noteq> [] \<and> (\<forall>c \<in> set w. P c)"
  then obtain c v where w: "w = c # v" by (cases w) auto
  with a have "P c" "v \<in> star {[c] | c. P c}"
    by (simp_all add: star_atoms)
  with w have "\<exists>x y. w = x @ y \<and> (\<exists>d. x = [d] \<and> P d) \<and> y \<in> star {[c] | c. P c}"
    by (intro exI[of _ "[c]"] exI[of _ v]) simp
  then show "w \<in> lang (oneOrMore (Atom P))"
    by (simp add: oneOrMore_def)
qed

lemma lang_nameAtVersion:
  "w \<in> lang nameAtVersion \<longleftrightarrow>
     (\<exists>u v. w = u @ [at_sign] @ v \<and> u \<noteq> [] \<and> (\<forall>c \<in> set u. \<not> lineTerminator c) \<and>
            v \<noteq> [] \<and> (\<forall>c \<in> set v. \<not> lineTerminator c))"
proof -
  have "w \<in> lang nameAtVersion \<longleftrightarrow>
      (\<exists>u t. w = u @ t \<and> u \<in> lang (oneOrMore dot) \<and>
         (\<exists>m v. t = m @ v \<and> m \<in> lang (Atom (\<lambda>c. c = at_sign)) \<and> v \<in> lang (oneOrMore dot)))"
    by (simp add: nameAtVersion_def)
  also have "\<dots> \<longleftrightarrow> (\<exists>u v. w = u @ [at_sign] @ v \<and> u \<in> lang (oneOrMore dot) \<and> v \<in> lang (oneOrMore dot))"
    by auto
  finally show ?thesis
    by (simp add: dot_def lang_oneOrMore_atom)
qed

text \<open>A match exists exactly where an \<open>@\<close> stands between two characters that \<open>.\<close> accepts.\<close>

lemma matchExists_nameAtVersion:
  "matchExists nameAtVersion s \<longleftrightarrow>
     (\<exists>x c d y. s = x @ [c, at_sign, d] @ y \<and> \<not> lineTerminator c \<and> \<not> lineTerminator d)"
proof
  assume "matchExists nameAtVersion s"
  then obtain pre suf u v where
    s: "s = pre @ (u @ [at_sign] @ v) @ suf" and
    u: "u \<noteq> []" "\<forall>c \<in> set u. \<not> lineTerminator c" and
    v: "v \<noteq> []" "\<forall>c \<in> set v. \<not> lineTerminator c"
    unfolding matchExists_lang lang_nameAtVersion sublist_def by blast
  from u(1) obtain u' c where u': "u = u' @ [c]"
    by (cases u rule: rev_cases) auto
  from v(1) obtain d v' where v': "v = d # v'"
    by (cases v) auto
  have "s = (pre @ u') @ [c, at_sign, d] @ (v' @ suf)"
    using s u' v' by simp
  moreover have "\<not> lineTerminator c" "\<not> lineTerminator d"
    using u(2) v(2) u' v' by simp_all
  ultimately show "\<exists>x c d y. s = x @ [c, at_sign, d] @ y \<and> \<not> lineTerminator c \<and> \<not> lineTerminator d"
    by blast
next
  assume "\<exists>x c d y. s = x @ [c, at_sign, d] @ y \<and> \<not> lineTerminator c \<and> \<not> lineTerminator d"
  then obtain x c d y where
    s: "s = x @ [c, at_sign, d] @ y" and cd: "\<not> lineTerminator c" "\<not> lineTerminator d"
    by blast
  have "[c, at_sign, d] \<in> lang nameAtVersion"
    unfolding lang_nameAtVersion using cd
    by (intro exI[of _ "[c]"] exI[of _ "[d]"]) simp
  moreover have "sublist [c, at_sign, d] s"
    unfolding s by (rule sublist_appendI)
  ultimately show "matchExists nameAtVersion s"
    unfolding matchExists_lang by blast
qed

lemma split_no_sep: "sep \<notin> set b \<Longrightarrow> split sep b = [b]"
  by (induction b) auto

lemma split_one_sep:
  "sep \<notin> set a \<Longrightarrow> sep \<notin> set b \<Longrightarrow> split sep (a @ [sep] @ b) = [a, b]"
  by (induction a) (auto simp: split_no_sep)

lemma takeWhile_one_sep:
  "sep \<notin> set a \<Longrightarrow> takeWhile (\<lambda>c. c \<noteq> sep) (a @ [sep] @ b) = a"
  by (induction a) auto

lemma one_sep_unique:
  assumes "a @ [sep] @ b = a' @ [sep] @ b'" "sep \<notin> set a" "sep \<notin> set a'"
  shows "a = a' \<and> b = b'"
proof -
  have "takeWhile (\<lambda>c. c \<noteq> sep) (a @ [sep] @ b) = a"
    using assms(2) by (rule takeWhile_one_sep)
  moreover have "takeWhile (\<lambda>c. c \<noteq> sep) (a' @ [sep] @ b') = a'"
    using assms(3) by (rule takeWhile_one_sep)
  ultimately have "a = a'" using assms(1) by simp
  with assms(1) show ?thesis by simp
qed

lemma matchExists_one_sep:
  assumes "at_sign \<notin> set a" "at_sign \<notin> set b"
  shows "matchExists nameAtVersion (a @ [at_sign] @ b) \<longleftrightarrow>
     a \<noteq> [] \<and> \<not> lineTerminator (last a) \<and> b \<noteq> [] \<and> \<not> lineTerminator (hd b)"
proof
  assume "matchExists nameAtVersion (a @ [at_sign] @ b)"
  then obtain x c d y where
    s: "a @ [at_sign] @ b = x @ [c, at_sign, d] @ y" and
    cd: "\<not> lineTerminator c" "\<not> lineTerminator d"
    unfolding matchExists_nameAtVersion by blast
  have "at_sign \<notin> set (x @ [c])"
  proof
    assume "at_sign \<in> set (x @ [c])"
    from split_list_first[OF this] obtain p q where
      pq: "x @ [c] = p @ at_sign # q" "at_sign \<notin> set p"
      by blast
    have "x @ [c, at_sign, d] @ y = (x @ [c]) @ [at_sign, d] @ y"
      by simp
    then have "a @ [at_sign] @ b = p @ [at_sign] @ (q @ [at_sign, d] @ y)"
      using s pq(1) by simp
    from one_sep_unique[OF this assms(1) pq(2)] have "b = q @ [at_sign, d] @ y"
      by simp
    with assms(2) show False by simp
  qed
  note notin = this
  have eq: "a @ [at_sign] @ b = (x @ [c]) @ [at_sign] @ (d # y)"
    using s by simp
  from one_sep_unique[OF eq assms(1) notin] have "a = x @ [c] \<and> b = d # y" .
  with cd show "a \<noteq> [] \<and> \<not> lineTerminator (last a) \<and> b \<noteq> [] \<and> \<not> lineTerminator (hd b)"
    by simp
next
  assume a: "a \<noteq> [] \<and> \<not> lineTerminator (last a) \<and> b \<noteq> [] \<and> \<not> lineTerminator (hd b)"
  have "butlast a @ [last a, at_sign, hd b] @ tl b =
      (butlast a @ [last a]) @ [at_sign] @ (hd b # tl b)"
    by simp
  also have "\<dots> = a @ [at_sign] @ b"
    using a by simp
  finally have "a @ [at_sign] @ b = butlast a @ [last a, at_sign, hd b] @ tl b"
    by simp
  with a show "matchExists nameAtVersion (a @ [at_sign] @ b)"
    unfolding matchExists_nameAtVersion by blast
qed

lemma count_one_sep:
  "sep \<notin> set a \<Longrightarrow> sep \<notin> set b \<Longrightarrow> length (filter (\<lambda>c. c = sep) (a @ [sep] @ b)) = 1"
proof -
  assume "sep \<notin> set a" "sep \<notin> set b"
  then have "filter (\<lambda>c. c = sep) a = []" "filter (\<lambda>c. c = sep) b = []"
    unfolding filter_empty_conv by blast+
  then show ?thesis by simp
qed

lemma one_sep_form:
  assumes "length (filter (\<lambda>c. c = sep) s) = 1"
  shows "\<exists>a b. s = a @ [sep] @ b \<and> sep \<notin> set a \<and> sep \<notin> set b"
proof -
  from assms have "filter (\<lambda>c. c = sep) s \<noteq> []"
    by auto
  then have "sep \<in> set s"
    unfolding filter_empty_conv by blast
  from split_list_first[OF this] obtain a b where
    ab: "s = a @ sep # b" "sep \<notin> set a"
    by blast
  from ab(2) have "filter (\<lambda>c. c = sep) a = []"
    unfolding filter_empty_conv by blast
  with assms ab(1) have "filter (\<lambda>c. c = sep) b = []"
    by simp
  then have "sep \<notin> set b"
    unfolding filter_empty_conv by blast
  with ab have "s = a @ [sep] @ b \<and> sep \<notin> set a \<and> sep \<notin> set b"
    by simp
  then show ?thesis by blast
qed

text \<open>
  C9 as stated fails: the token \<^verbatim>\<open>@v1\<close> holds exactly one \<^verbatim>\<open>@\<close>, and the parser
  raises the validation error on it, because the pattern \<^verbatim>\<open>.+@.+\<close> finds no match.
\<close>
theorem parseNameAndVersion_counterexample:
  "length (filter (\<lambda>c. c = at_sign) (lit ''@v1'')) = 1
   \<and> parseNameAndVersion (lit ''@v1'') = Inl formatError"
  by (simp add: parseNameAndVersion_def matchExists_def nameAtVersion_def oneOrMore_def dot_def
      lit_def at_sign_def lineTerminator_def)

text \<open>
  C9, amended. \<^verbatim>\<open>parseNameAndVersion\<close> raises the validation error exactly when the token
  does not hold exactly one \<^verbatim>\<open>@\<close>, or holds one that is not both preceded and followed
  by a character other than a line terminator (so also when the name or the version is empty).
  For every other token it returns the text before the \<^verbatim>\<open>@\<close> as squid name and the text
  after it as version name. A token with exactly one \<^verbatim>\<open>@\<close> is a name, the \<^verbatim>\<open>@\<close> and a
  version, neither holding an \<^verbatim>\<open>@\<close>.
\<close>
theorem parseNameAndVersion_cases:
  "(length (filter (\<lambda>c. c = at_sign) s) \<noteq> 1 \<longrightarrow> parseNameAndVersion s = Inl formatError)
   \<and> (length (filter (\<lambda>c. c = at_sign) s) = 1 \<longrightarrow>
        (\<exists>a b. s = a @ [at_sign] @ b \<and> at_sign \<notin> set a \<and> at_sign \<notin> set b))
   \<and> (at_sign \<notin> set a \<and> at_sign \<notin> set b \<longrightarrow>
        parseNameAndVersion (a @ [at_sign] @ b) =
          (if a \<noteq> [] \<and> \<not> lineTerminator (last a) \<and> b \<noteq> [] \<and> \<not> lineTerminator (hd b)
           then Inr (Some a, Some b) else Inl formatError))"
proof (intro conjI impI)
  assume "length (filter (\<lambda>c. c = at_sign) s) \<noteq> 1"
  then show "parseNameAndVersion s = Inl formatError"
    by (simp add: parseNameAndVersion_def)
next
  assume "length (filter (\<lambda>c. c = at_sign) s) = 1"
  then show "\<exists>a b. s = a @ [at_sign] @ b \<and> at_sign \<notin> set a \<and> at_sign \<notin> set b"
    by (rule one_sep_form)
next
  assume ab: "at_sign \<notin> set a \<and> at_sign \<notin> set b"
  then have one: "length (filter (\<lambda>c. c = at_sign) (a @ [at_sign] @ b)) = 1"
    using count_one_sep[of at_sign a b] by simp
  have parts: "split at_sign (a @ [at_sign] @ b) = [a, b]"
    using ab split_one_sep[of at_sign a b] by simp
  have found: "matchExists nameAtVersion (a @ [at_sign] @ b) \<longleftrightarrow>
     a \<noteq> [] \<and> \<not> lineTerminator (last a) \<and> b \<noteq> [] \<and> \<not> lineTerminator (hd b)"
    using ab matchExists_one_sep[of a b] by simp
  show "parseNameAndVersion (a @ [at_sign] @ b) =
          (if a \<noteq> [] \<and> \<not> lineTerminator (last a) \<and> b \<noteq> [] \<and> \<not> lineTerminator (hd b)
           then Inr (Some a, Some b) else Inl formatError)"
    unfolding parseNameAndVersion_def found parts using one
    by (simp add: nth_opt_def)
qed

theorem parseNameAndVersion_cases_witness:
  "length (filter (\<lambda>c. c = at_sign) (lit ''foo@bar@baz'')) \<noteq> 1
   \<and> parseNameAndVersion (lit ''foo@bar@baz'') = Inl formatError
   \<and> length (filter (\<lambda>c. c = at_sign) (lit ''foo'')) \<noteq> 1
   \<and> parseNameAndVersion (lit ''foo'') = Inl formatError
   \<and> at_sign \<notin> set (lit ''my-squid'') \<and> at_sign \<notin> set (lit ''v1'')
   \<and> parseNameAndVersion (lit ''my-squid'' @ [at_sign] @ lit ''v1'') =
       Inr (Some (lit ''my-squid''), Some (lit ''v1''))"
proof -
  have h1: "length (filter (\<lambda>c. c = at_sign) (lit ''foo@bar@baz'')) \<noteq> 1"
    by (simp add: lit_def at_sign_def)
  have h2: "length (filter (\<lambda>c. c = at_sign) (lit ''foo'')) \<noteq> 1"
    by (simp add: lit_def at_sign_def)
  have h3: "at_sign \<notin> set (lit ''my-squid'') \<and> at_sign \<notin> set (lit ''v1'')"
    by (simp add: lit_def at_sign_def)
  have e: "lit ''my-squid'' \<noteq> [] \<and> \<not> lineTerminator (last (lit ''my-squid'')) \<and>
      lit ''v1'' \<noteq> [] \<and> \<not> lineTerminator (hd (lit ''v1''))"
    by (simp add: lit_def lineTerminator_def)
  from parseNameAndVersion_cases[of "lit ''foo@bar@baz''" "lit ''my-squid''" "lit ''v1''"]
    parseNameAndVersion_cases[of "lit ''foo''" "[]" "[]"] h1 h2 h3 e
  show ?thesis
    by simp
qed

end
